theory Spec2Isabelle
  imports Main "HOL-Library.Sublist"
begin

section \<open>Python strings\<close>

text \<open>
  A Python \<open>str\<close> is modelled as a \<open>string\<close>; every \<open>char\<close> stands for one code
  point below 256, and \<open>length\<close> is Python's \<open>len\<close>. \<open>isspace\<close> is the whitespace
  class shared by \<open>str.strip()\<close> and the regular expression \<open>\s\<close> on those code points.
\<close>

definition isspace :: "char \<Rightarrow> bool" where
  "isspace c = (c \<in> set [CHR 0x09, CHR 0x0A, CHR 0x0B, CHR 0x0C, CHR 0x0D,
                          CHR 0x1C, CHR 0x1D, CHR 0x1E, CHR 0x1F, CHR 0x20,
                          CHR 0x85, CHR 0xA0])"

text \<open>\<open>s.strip()\<close>\<close>

definition strip :: "string \<Rightarrow> string" where
  "strip s = rev (dropWhile isspace (rev (dropWhile isspace s)))"

text \<open>\<open>re.sub(r'\s+', ' ', s)\<close>: every maximal run of whitespace becomes one blank.\<close>

function re_sub_ws :: "string \<Rightarrow> string" where
  "re_sub_ws [] = []"
| "re_sub_ws (c # cs) =
     (if isspace c then CHR 0x20 # re_sub_ws (dropWhile isspace cs)
      else c # re_sub_ws cs)"
  by pat_completeness auto
termination
  by (relation "measure length") (auto simp: le_imp_less_Suc length_dropWhile_le)

text \<open>\<open>s.replace(a, b)\<close> for one-character \<open>a\<close> and \<open>b\<close>.\<close>

definition replace_char :: "char \<Rightarrow> char \<Rightarrow> string \<Rightarrow> string" where
  "replace_char a b s = map (\<lambda>c. if c = a then b else c) s"

text \<open>\<open>p in s\<close>: the substring test.\<close>

fun contains :: "string \<Rightarrow> string \<Rightarrow> bool" where
  "contains p [] = (p = [])"
| "contains p (c # cs) = (take (length p) (c # cs) = p \<or> contains p cs)"

text \<open>
  \<open>s.split(p)[0]\<close> for a non-empty separator: the text before the first occurrence of
  \<open>p\<close>, or all of \<open>s\<close> when there is none.
\<close>

fun split_head :: "string \<Rightarrow> string \<Rightarrow> string" where
  "split_head p [] = []"
| "split_head p (c # cs) =
     (if take (length p) (c # cs) = p then [] else c # split_head p cs)"

text \<open>\<open>s.lower()\<close> on code points below 256: the ASCII and the Latin-1 capitals.\<close>

definition lower_char :: "char \<Rightarrow> char" where
  "lower_char c =
     (let n = (of_char c :: nat)
      in if (65 \<le> n \<and> n \<le> 90) \<or> (192 \<le> n \<and> n \<le> 222 \<and> n \<noteq> 215)
         then char_of (n + 32) else c)"

definition lower :: "string \<Rightarrow> string" where
  "lower s = map lower_char s"

section \<open>Exceptions\<close>

text \<open>
  Every exception the pipeline can meet derives from \<open>Exception\<close>; the handler of
  \<open>process_single_article\<close> tells \<open>requests.exceptions.RequestException\<close> from the
  rest. The string is \<open>str(e)\<close>.
\<close>

datatype exn = RequestException string | OtherException string

section \<open>Parsed documents\<close>

text \<open>
  What BeautifulSoup's tree gives the scrapers: a string node, or an element with its
  tag name, its list of CSS classes (\<open>tag.get('class')\<close>, empty when the attribute is
  missing), its \<open>id\<close> attribute and its children. The soup itself is the element
  named \<open>[document]\<close>.

  A string node has the class the parser gave it. Character data is a
  \<open>NavigableString\<close>, unless it lies inside a \<open>script\<close>, \<open>style\<close>, \<open>template\<close>,
  \<open>rt\<close> or \<open>rp\<close> element, where it has the class of that container; a CDATA
  section is a \<open>CData\<close>; \<open>Comment\<close> stands for comments, doctypes, declarations
  and processing instructions.
\<close>

datatype text_kind =
  NavigableString | CData | Script | Stylesheet | TemplateString | RubyTextString |
  RubyParenthesisString | Comment

datatype node = Text text_kind string | Elem string "string list" "string option" "node list"

text \<open>The tree builder's table \<open>string_containers\<close>.\<close>

definition string_container :: "string \<Rightarrow> text_kind option" where
  "string_container name =
     (if name = ''script'' then Some Script
      else if name = ''style'' then Some Stylesheet
      else if name = ''template'' then Some TemplateString
      else if name = ''rt'' then Some RubyTextString
      else if name = ''rp'' then Some RubyParenthesisString
      else None)"

text \<open>
  \<open>tag.interesting_string_types\<close>: the string classes that \<open>get_text\<close> of a tag
  reads. A container tag reads its own class; every other tag reads
  \<open>NavigableString\<close> and \<open>CData\<close>, so that script and style text, template text and
  comments below it are left out.
\<close>

definition interesting_string_types :: "string \<Rightarrow> text_kind list" where
  "interesting_string_types name =
     (case string_container name of Some k \<Rightarrow> [k] | None \<Rightarrow> [NavigableString, CData])"

text \<open>The descendants of a node in document order, as \<open>find\<close> and \<open>find_all\<close> walk them.\<close>

fun descendants :: "node \<Rightarrow> node list" where
  "descendants (Text k s) = []"
| "descendants (Elem t cs i ch) = concat (map (\<lambda>n. n # descendants n) ch)"

definition bs_find_all :: "(node \<Rightarrow> bool) \<Rightarrow> node \<Rightarrow> node list" where
  "bs_find_all P soup = filter P (descendants soup)"

definition bs_find :: "(node \<Rightarrow> bool) \<Rightarrow> node \<Rightarrow> node option" where
  "bs_find P soup = List.find P (descendants soup)"

text \<open>The filters the scrapers pass to \<open>find\<close> and \<open>find_all\<close>.\<close>

fun has_tag :: "string \<Rightarrow> node \<Rightarrow> bool" where
  "has_tag name (Text k s) = False"
| "has_tag name (Elem t cs i ch) = (t = name)"

fun has_tag_in :: "string list \<Rightarrow> node \<Rightarrow> bool" where
  "has_tag_in names (Text k s) = False"
| "has_tag_in names (Elem t cs i ch) = (t \<in> set names)"

text \<open>\<open>class_=name\<close>: some class of the element is \<open>name\<close>.\<close>

fun has_class :: "string \<Rightarrow> node \<Rightarrow> bool" where
  "has_class name (Text k s) = False"
| "has_class name (Elem t cs i ch) = (name \<in> set cs)"

text \<open>\<open>class_=[...]\<close>: some class of the element is in the list.\<close>

fun has_class_in :: "string list \<Rightarrow> node \<Rightarrow> bool" where
  "has_class_in names (Text k s) = False"
| "has_class_in names (Elem t cs i ch) = list_ex (\<lambda>c. c \<in> set names) cs"

text \<open>\<open>class_=lambda c: c and f(c)\<close>: the function is tried on every class.\<close>

fun class_matches :: "(string \<Rightarrow> bool) \<Rightarrow> node \<Rightarrow> bool" where
  "class_matches f (Text k s) = False"
| "class_matches f (Elem t cs i ch) = list_ex (\<lambda>c. c \<noteq> [] \<and> f c) cs"

text \<open>\<open>id=name\<close> and \<open>id=lambda i: i and f(i)\<close>.\<close>

fun has_id :: "string \<Rightarrow> node \<Rightarrow> bool" where
  "has_id name (Text k s) = False"
| "has_id name (Elem t cs i ch) = (i = Some name)"

fun id_matches :: "(string \<Rightarrow> bool) \<Rightarrow> node \<Rightarrow> bool" where
  "id_matches f (Text k s) = False"
| "id_matches f (Elem t cs i ch) = (case i of None \<Rightarrow> False | Some v \<Rightarrow> v \<noteq> [] \<and> f v)"

text \<open>
  \<open>string=lambda s: s and f(s)\<close> with no tag name: a string node, of any class, that
  satisfies \<open>f\<close>.
\<close>

fun string_matches :: "(string \<Rightarrow> bool) \<Rightarrow> node \<Rightarrow> bool" where
  "string_matches f (Text k s) = (s \<noteq> [] \<and> f s)"
| "string_matches f (Elem t cs i ch) = False"

text \<open>
  \<open>tag.string\<close>: the string of a node whose only content, through any chain of only
  children, is one string node of any class; \<open>None\<close> otherwise.
\<close>

fun tag_string :: "node \<Rightarrow> string option" where
  "tag_string (Text k s) = Some s"
| "tag_string (Elem t cs i [c]) = tag_string c"
| "tag_string (Elem t cs i ch) = None"

text \<open>\<open>find(name, string=lambda s: s and f(s))\<close>: an element of that name whose \<open>.string\<close> satisfies \<open>f\<close>.\<close>

fun tag_string_matches :: "string \<Rightarrow> (string \<Rightarrow> bool) \<Rightarrow> node \<Rightarrow> bool" where
  "tag_string_matches name f (Text k s) = False"
| "tag_string_matches name f (Elem t cs i ch) =
     (t = name \<and> (case tag_string (Elem t cs i ch) of None \<Rightarrow> False | Some s \<Rightarrow> s \<noteq> [] \<and> f s))"

text \<open>
  \<open>tag._all_strings(types=...)\<close>: the strings below a node whose class is one of
  \<open>types\<close>, in document order.
\<close>

fun all_strings :: "text_kind list \<Rightarrow> node \<Rightarrow> string list" where
  "all_strings types (Text k s) = (if k \<in> set types then [s] else [])"
| "all_strings types (Elem t cs i ch) = concat (map (all_strings types) ch)"

text \<open>The classes that \<open>get_text\<close> of a node reads; a string node reads itself.\<close>

fun string_types :: "node \<Rightarrow> text_kind list" where
  "string_types (Text k s) = [k]"
| "string_types (Elem t cs i ch) = interesting_string_types t"

text \<open>\<open>tag.get_text()\<close>\<close>

definition get_text :: "node \<Rightarrow> string" where
  "get_text n = concat (all_strings (string_types n) n)"

text \<open>\<open>' '.join(parts)\<close>\<close>

fun join_sp :: "string list \<Rightarrow> string" where
  "join_sp [] = []"
| "join_sp [s] = s"
| "join_sp (s # t # ss) = s @ CHR 0x20 # join_sp (t # ss)"

text \<open>
  \<open>tag.get_text(separator=' ', strip=True)\<close>: every string that \<open>get_text\<close> reads,
  stripped, the empty ones dropped, the rest joined by one blank.
\<close>

definition get_text_sep_strip :: "node \<Rightarrow> string" where
  "get_text_sep_strip n =
     join_sp (filter (\<lambda>s. s \<noteq> []) (map strip (all_strings (string_types n) n)))"

text \<open>
  \<open>for e in tree.find_all(P): e.decompose()\<close>: every descendant that satisfies \<open>P\<close>
  leaves the tree with all it contains.
\<close>

fun remove_all :: "(node \<Rightarrow> bool) \<Rightarrow> node \<Rightarrow> node" where
  "remove_all P (Text k s) = Text k s"
| "remove_all P (Elem t cs i ch) = Elem t cs i (map (remove_all P) (filter (\<lambda>n. \<not> P n) ch))"

text \<open>
  \<open>e = tree.find(P); if e: e.decompose()\<close>: the first descendant in document order that
  satisfies \<open>P\<close> leaves the tree.
\<close>

fun remove_first :: "(node \<Rightarrow> bool) \<Rightarrow> node \<Rightarrow> node"
  and remove_first_list :: "(node \<Rightarrow> bool) \<Rightarrow> node list \<Rightarrow> node list" where
  "remove_first P (Text k s) = Text k s"
| "remove_first P (Elem t cs i ch) = Elem t cs i (remove_first_list P ch)"
| "remove_first_list P [] = []"
| "remove_first_list P (n # ns) =
     (if P n then ns
      else if list_ex P (descendants n) then remove_first P n # ns
      else n # remove_first_list P ns)"

text \<open>
  An element found by \<open>tree.find(P)\<close> and then changed in place: the first descendant
  that satisfies \<open>P\<close> is now \<open>new\<close>.
\<close>

fun replace_first :: "(node \<Rightarrow> bool) \<Rightarrow> node \<Rightarrow> node \<Rightarrow> node"
  and replace_first_list :: "(node \<Rightarrow> bool) \<Rightarrow> node \<Rightarrow> node list \<Rightarrow> node list" where
  "replace_first P new (Text k s) = Text k s"
| "replace_first P new (Elem t cs i ch) = Elem t cs i (replace_first_list P new ch)"
| "replace_first_list P new [] = []"
| "replace_first_list P new (n # ns) =
     (if P n then new # ns
      else if list_ex P (descendants n) then replace_first P new n # ns
      else n # replace_first_list P new ns)"

text \<open>A tag is true even when empty; \<open>None\<close> and the empty string are false.\<close>

fun truthy :: "string option \<Rightarrow> bool" where
  "truthy None = False"
| "truthy (Some s) = (s \<noteq> [])"

section \<open>The text half of the sanitizer\<close>

text \<open>
  \<^verbatim>\<open>
    def clean_text(text):
        if not text: return ""
        text = re.sub(r'\s+', ' ', text.strip())
        text = text.replace('\n', ' ').replace('\r', ' ').replace('\t', ' ')
        return text
  \<close>
\<close>

definition clean_text :: "string \<Rightarrow> string" where
  "clean_text text' =
     (if text' = [] then []
      else replace_char (CHR 0x09) (CHR 0x20)
             (replace_char (CHR 0x0D) (CHR 0x20)
               (replace_char (CHR 0x0A) (CHR 0x20) (re_sub_ws (strip text')))))"

text \<open>
  \<^verbatim>\<open>
    for text in self.boilerplate_text:
        if text in content:
            content = content.split(text)[0]
  \<close>
  \<open>str.split\<close> raises \<open>ValueError\<close> on an empty separator, and the empty string is \<open>in\<close>
  every string.
\<close>

fun remove_boilerplate :: "string list \<Rightarrow> string \<Rightarrow> exn + string" where
  "remove_boilerplate [] content = Inr content"
| "remove_boilerplate (text' # rest) content =
     (if contains text' content then
        (if text' = [] then Inl (OtherException ''empty separator'')
         else remove_boilerplate rest (split_head text' content))
      else remove_boilerplate rest content)"

text \<open>The list \<open>self.boilerplate_text\<close> of \<open>ArticleScraper\<close> (both Economic Times files).\<close>

definition ET_boilerplate_text :: "string list" where
  "ET_boilerplate_text =
     [''Catch all the US News'',
      ''Download The Economic Times News App'',
      ''You can now subscribe to our Economic Times WhatsApp channel'',
      ''Disclaimer Statement:'',
      ''Read More News on'',
      ''Prime Exclusives'',
      ''Investment Ideas'',
      ''View all Stories'',
      ''(You can now subscribe to our'',
      ''Read More News on'']"


text \<open>
  The tail of \<open>_process_content_element\<close>, from the extracted text on:
  \<^verbatim>\<open>
    for text in self.boilerplate_text: ...
    content = self.clean_text(content)
    return content if len(content) > 200 else None
  \<close>
\<close>

definition finish_content :: "string list \<Rightarrow> string \<Rightarrow> exn + string option" where
  "finish_content boilerplate content =
     (case remove_boilerplate boilerplate content of
        Inl e \<Rightarrow> Inl e
      | Inr content' \<Rightarrow>
          (let content'' = clean_text content'
           in Inr (if length content'' > 200 then Some content'' else None)))"

section \<open>articles_data_ET.py: \<open>ArticleScraper\<close>\<close>

subsection \<open>\<open>is_paywall_page\<close>\<close>

text \<open>
  \<^verbatim>\<open>
    for indicator in paywall_indicators:
        if soup.find(class_=indicator): return True
    article_content = soup.find(class_=['artText', 'article-text', 'article_content']) or soup.find('article')
    return not (article_content and len(article_content.get_text().strip()) > 200)
  \<close>
\<close>

definition ArticleScraper_paywall_indicators :: "string list" where
  "ArticleScraper_paywall_indicators =
     [''articleBlocker'', ''paywall_box'', ''prime_paywall'', ''subscribeBtn'']"

definition ArticleScraper_article_content :: "node \<Rightarrow> node option" where
  "ArticleScraper_article_content soup =
     (case bs_find (has_class_in [''artText'', ''article-text'', ''article_content'']) soup of
        Some e \<Rightarrow> Some e
      | None \<Rightarrow> bs_find (has_tag ''article'') soup)"

definition ArticleScraper_is_paywall_page :: "node \<Rightarrow> bool" where
  "ArticleScraper_is_paywall_page soup =
     (if list_ex (\<lambda>indicator. bs_find (has_class indicator) soup \<noteq> None)
           ArticleScraper_paywall_indicators
      then True
      else (case ArticleScraper_article_content soup of
              None \<Rightarrow> True
            | Some article_content \<Rightarrow> \<not> (length (strip (get_text article_content)) > 200)))"

subsection \<open>\<open>_process_content_element\<close>\<close>

text \<open>
  \<^verbatim>\<open>
    for unwanted in element.find_all(['script', 'style', 'noscript', 'div']):
        if unwanted.get('class') and any(c in ['flt', 'ads', 'footer', 'disclaimer', 'prime', 'paywall']
                                         for c in unwanted.get('class')):
            unwanted.decompose()
  \<close>
  \<open>find_all\<close> lists the descendants with one of the four tags before the loop starts,
  and the loop works on the element itself, not on a copy. \<open>decompose\<close> destroys the
  element and everything below it (it clears their attribute dictionaries). When the
  loop then reaches a listed element that lay inside a decomposed one, \<open>unwanted.get\<close>
  finds no attribute dictionary and raises \<open>AttributeError\<close> (the library leaves
  the use of a decomposed element undefined; this is what its implementation does). In
  document order: a listed element with an unwanted class is removed if nothing below
  it is listed, and makes the loop raise otherwise.
\<close>

definition attribute_error_message :: string where
  "attribute_error_message =
     CHR 0x27 # ''NoneType'' @ CHR 0x27 # '' object has no attribute '' @ CHR 0x27 # ''get'' @ [CHR 0x27]"

definition ArticleScraper_listed :: "node \<Rightarrow> bool" where
  "ArticleScraper_listed n = has_tag_in [''script'', ''style'', ''noscript'', ''div''] n"

definition ArticleScraper_unwanted :: "node \<Rightarrow> bool" where
  "ArticleScraper_unwanted n =
     (ArticleScraper_listed n \<and>
      has_class_in [''flt'', ''ads'', ''footer'', ''disclaimer'', ''prime'', ''paywall''] n)"

fun decompose_unwanted :: "node \<Rightarrow> exn + node"
  and decompose_unwanted_list :: "node list \<Rightarrow> exn + node list" where
  "decompose_unwanted (Text k s) = Inr (Text k s)"
| "decompose_unwanted (Elem t cs i ch) =
     (case decompose_unwanted_list ch of Inl e \<Rightarrow> Inl e | Inr ch' \<Rightarrow> Inr (Elem t cs i ch'))"
| "decompose_unwanted_list [] = Inr []"
| "decompose_unwanted_list (n # ns) =
     (if ArticleScraper_unwanted n then
        (if list_ex ArticleScraper_listed (descendants n)
         then Inl (OtherException attribute_error_message)
         else decompose_unwanted_list ns)
      else (case decompose_unwanted n of
              Inl e \<Rightarrow> Inl e
            | Inr n' \<Rightarrow>
                (case decompose_unwanted_list ns of
                   Inl e \<Rightarrow> Inl e
                 | Inr ns' \<Rightarrow> Inr (n' # ns'))))"

text \<open>
  \<^verbatim>\<open>
    content = element.get_text(separator=' ', strip=True)
    for text in self.boilerplate_text: ...
    content = self.clean_text(content)
    return content if len(content) > 200 else None
  \<close>
  The result comes with the element as the loop left it, since the caller's soup holds
  that very element.
\<close>

definition ArticleScraper_process_content_element :: "node \<Rightarrow> exn + (string option \<times> node)" where
  "ArticleScraper_process_content_element element =
     (case decompose_unwanted element of
        Inl e \<Rightarrow> Inl e
      | Inr element' \<Rightarrow>
          (case finish_content ET_boilerplate_text (get_text_sep_strip element') of
             Inl e \<Rightarrow> Inl e
           | Inr content \<Rightarrow> Inr (content, element')))"

subsection \<open>\<open>extract_article_content\<close>\<close>

text \<open>
  \<^verbatim>\<open>
    for selector in content_selectors:
        element = soup.find(class_=selector['name'])
        if element:
            content = self._process_content_element(element)
            if content:
                return content, f"class: {selector['name']}"
    return None, None
  \<close>
  The sanitizer prunes the candidate inside the caller's soup, whether the candidate
  yields content or not; the functions return the soup as they leave it beside the
  pair that the Python returns.
\<close>

fun ArticleScraper_try_selectors ::
  "string list \<Rightarrow> node \<Rightarrow> exn + ((string \<times> string) option \<times> node)" where
  "ArticleScraper_try_selectors [] soup = Inr (None, soup)"
| "ArticleScraper_try_selectors (name # rest) soup =
     (case bs_find (has_class name) soup of
        None \<Rightarrow> ArticleScraper_try_selectors rest soup
      | Some element \<Rightarrow>
          (case ArticleScraper_process_content_element element of
             Inl e \<Rightarrow> Inl e
           | Inr (content, element') \<Rightarrow>
               (let soup' = replace_first (has_class name) element' soup
                in if truthy content then Inr (Some (the content, ''class: '' @ name), soup')
                   else ArticleScraper_try_selectors rest soup')))"

definition ArticleScraper_content_selectors :: "string list" where
  "ArticleScraper_content_selectors =
     [''artText'', ''article_wrap'', ''article-content'', ''story-details'']"

text \<open>
  \<^verbatim>\<open>
    article_tag = soup.find('article')
    if article_tag:
        content = self._process_content_element(article_tag)
        if content:
            return content, "article tag"
  \<close>
\<close>

definition ArticleScraper_extract_article_content ::
  "node \<Rightarrow> exn + ((string \<times> string) option \<times> node)" where
  "ArticleScraper_extract_article_content soup =
     (case bs_find (has_tag ''article'') soup of
        None \<Rightarrow> ArticleScraper_try_selectors ArticleScraper_content_selectors soup
      | Some article_tag \<Rightarrow>
          (case ArticleScraper_process_content_element article_tag of
             Inl e \<Rightarrow> Inl e
           | Inr (content, article_tag') \<Rightarrow>
               (let soup' = replace_first (has_tag ''article'') article_tag' soup
                in if truthy content then Inr (Some (the content, ''article tag''), soup')
                   else ArticleScraper_try_selectors ArticleScraper_content_selectors soup')))"

text \<open>
  \<open>content, method = self.extract_article_content(soup)\<close>: what the caller of the
  locator reads.
\<close>

definition ArticleScraper_content_and_method :: "node \<Rightarrow> exn + (string \<times> string) option" where
  "ArticleScraper_content_and_method soup =
     (case ArticleScraper_extract_article_content soup of
        Inl e \<Rightarrow> Inl e
      | Inr (found, soup') \<Rightarrow> Inr found)"

section \<open>ET_news_integrated.py: the scraper class\<close>

text \<open>
  The class is declared as \<open>ArticleScraper\<close> in this file too; its definitions carry the
  prefix \<open>ETNewsScraper\<close> here to keep the two apart.
\<close>

subsection \<open>\<open>is_paywall_page\<close>\<close>

definition ETNewsScraper_paywall_indicators :: "string list" where
  "ETNewsScraper_paywall_indicators =
     [''articleBlocker'', ''paywall_box'', ''prime_paywall'', ''subscribeBtn'', ''paywall'',
      ''subscription-required'', ''premium-content'']"

definition ETNewsScraper_paywall_texts :: "string list" where
  "ETNewsScraper_paywall_texts =
     [''Subscribe to read'',
      ''Subscribe to continue reading'',
      ''This article is exclusively for subscribers'',
      ''To read the full article, subscribe'',
      ''Subscribe to ET Prime'',
      ''This article is locked'']"

text \<open>
  \<^verbatim>\<open>
    for indicator in paywall_indicators:
        if soup.find(class_=lambda c: c and indicator in c): return True
    for text in paywall_texts:
        if soup.find(string=lambda s: s and text in s): return True
    if soup.find(id=lambda i: i and 'paywall' in i.lower()): return True
    if soup.find('button', string=lambda s: s and ('subscribe' in s.lower() or 'sign in' in s.lower())):
        return True
    # If we've made it this far, it's likely not a paywall
    return False
  \<close>
\<close>

definition ETNewsScraper_is_paywall_page :: "node \<Rightarrow> bool" where
  "ETNewsScraper_is_paywall_page soup =
     (if list_ex (\<lambda>indicator. bs_find (class_matches (contains indicator)) soup \<noteq> None)
           ETNewsScraper_paywall_indicators
      then True
      else if list_ex (\<lambda>text'. bs_find (string_matches (contains text')) soup \<noteq> None)
           ETNewsScraper_paywall_texts
      then True
      else if bs_find (id_matches (\<lambda>i. contains ''paywall'' (lower i))) soup \<noteq> None
      then True
      else if bs_find (tag_string_matches ''button''
                 (\<lambda>s. contains ''subscribe'' (lower s) \<or> contains ''sign in'' (lower s))) soup \<noteq> None
      then True
      else False)"

subsection \<open>\<open>_process_content_element\<close>\<close>

definition ETNewsScraper_unwanted_classes :: "string list" where
  "ETNewsScraper_unwanted_classes =
     [''flt'', ''ads'', ''footer'', ''disclaimer'', ''prime'', ''paywall'', ''social-share'',
      ''related-articles'', ''recommended'', ''sidebar'', ''advertisement'', ''ad-container'',
      ''ad-wrapper'', ''advertisement-container'', ''social-media'', ''share-buttons'',
      ''comments'', ''comment-section'', ''newsletter'', ''subscription'', ''subscribe'',
      ''sign-up'', ''signup'', ''cookie-notice'', ''cookie-banner'', ''cookie-policy'',
      ''cookie-consent'', ''newsletter-signup'', ''newsletter-form'',
      ''newsletter-container'', ''newsletter-wrapper'', ''newsletter-box'',
      ''newsletter-banner'', ''newsletter-popup'', ''newsletter-modal'',
      ''newsletter-dialog'', ''newsletter-overlay'', ''newsletter-backdrop'',
      ''newsletter-close'', ''newsletter-close-button'', ''newsletter-close-btn'',
      ''newsletter-dismiss'', ''newsletter-dismiss-button'', ''newsletter-dismiss-btn'',
      ''newsletter-hide'', ''newsletter-hide-button'', ''newsletter-hide-btn'',
      ''newsletter-remove'', ''newsletter-remove-button'', ''newsletter-remove-btn'',
      ''newsletter-exit'', ''newsletter-exit-button'', ''newsletter-exit-btn'',
      ''newsletter-close-icon'', ''newsletter-close-x'', ''newsletter-close-times'',
      ''newsletter-close-times-icon'', ''newsletter-close-times-x'',
      ''newsletter-close-times-button'', ''newsletter-close-times-btn'',
      ''newsletter-close-times-icon-button'', ''newsletter-close-times-icon-btn'',
      ''newsletter-close-times-icon-x'', ''newsletter-close-times-icon-times'',
      ''newsletter-close-times-icon-close'', ''newsletter-close-times-icon-dismiss'',
      ''newsletter-close-times-icon-hide'', ''newsletter-close-times-icon-remove'',
      ''newsletter-close-times-icon-exit'', ''newsletter-close-times-icon-close-button'',
      ''newsletter-close-times-icon-close-btn'',
      ''newsletter-close-times-icon-dismiss-button'',
      ''newsletter-close-times-icon-dismiss-btn'',
      ''newsletter-close-times-icon-hide-button'', ''newsletter-close-times-icon-hide-btn'',
      ''newsletter-close-times-icon-remove-button'',
      ''newsletter-close-times-icon-remove-btn'', ''newsletter-close-times-icon-exit-button'',
      ''newsletter-close-times-icon-exit-btn'']"

definition ETNewsScraper_unwanted_ids :: "string list" where
  "ETNewsScraper_unwanted_ids =
     [''comments'', ''related-articles'', ''recommended'', ''sidebar'', ''advertisement'']"

text \<open>
  \<^verbatim>\<open>
    element_copy = BeautifulSoup(str(element), 'html.parser')
    for unwanted_class in unwanted_classes:
        for elem in element_copy.find_all(class_=lambda c: c and unwanted_class in c):
            elem.decompose()
    for tag in element_copy.find_all(['script', 'style', 'noscript', 'iframe', 'form']):
        tag.decompose()
    for unwanted_id in unwanted_ids:
        elem = element_copy.find(id=unwanted_id)
        if elem: elem.decompose()
    content = element_copy.get_text(separator=' ', strip=True)
    ...
  \<close>
  The copy is a new soup whose only child is the element, parsed from what
  \<open>str(element)\<close> prints; the searches start at that soup, so they can match the
  element itself. The caller's soup is untouched. Parsing gives every string its class
  anew, from the containers inside the element alone: character data that had the
  class of a container above the element is a \<open>NavigableString\<close> in the copy.
\<close>

fun rekind :: "text_kind \<Rightarrow> node \<Rightarrow> node" where
  "rekind k (Text k0 s) = Text (if k0 = CData \<or> k0 = Comment then k0 else k) s"
| "rekind k (Elem t cs i ch) =
     Elem t cs i (map (rekind (case string_container t of Some k' \<Rightarrow> k' | None \<Rightarrow> k)) ch)"

definition reparse :: "node \<Rightarrow> node" where
  "reparse element = Elem ''[document]'' [] None [rekind NavigableString element]"

definition ETNewsScraper_strip_element :: "node \<Rightarrow> node" where
  "ETNewsScraper_strip_element element =
     (let element_copy = reparse element;
          c1 = foldl (\<lambda>copy unwanted_class.
                        remove_all (class_matches (contains unwanted_class)) copy)
                 element_copy ETNewsScraper_unwanted_classes;
          c2 = remove_all (has_tag_in [''script'', ''style'', ''noscript'', ''iframe'', ''form'']) c1
      in foldl (\<lambda>copy unwanted_id. remove_first (has_id unwanted_id) copy)
           c2 ETNewsScraper_unwanted_ids)"

definition ETNewsScraper_process_content_element :: "node \<Rightarrow> exn + string option" where
  "ETNewsScraper_process_content_element element =
     finish_content ET_boilerplate_text
       (get_text_sep_strip (ETNewsScraper_strip_element element))"

subsection \<open>\<open>extract_article_content\<close>\<close>

text \<open>
  The two selector loops, by class (method tag \<open>class: name\<close>) and by id (\<open>id: name\<close>):
  \<^verbatim>\<open>
    for selector in content_selectors:
        element = soup.find(class_=selector['name'])
        if element:
            content = self._process_content_element(element)
            if content:
                return content, f"class: {selector['name']}"
  \<close>
\<close>

fun ETNewsScraper_try_selectors ::
  "(string \<Rightarrow> node \<Rightarrow> bool) \<Rightarrow> string \<Rightarrow> string list \<Rightarrow> node \<Rightarrow> exn + (string \<times> string) option" where
  "ETNewsScraper_try_selectors sel tag' [] soup = Inr None"
| "ETNewsScraper_try_selectors sel tag' (name # rest) soup =
     (case bs_find (sel name) soup of
        None \<Rightarrow> ETNewsScraper_try_selectors sel tag' rest soup
      | Some element \<Rightarrow>
          (case ETNewsScraper_process_content_element element of
             Inl e \<Rightarrow> Inl e
           | Inr content \<Rightarrow>
               (if truthy content then Inr (Some (the content, tag' @ name))
                else ETNewsScraper_try_selectors sel tag' rest soup)))"

definition ETNewsScraper_content_selectors :: "string list" where
  "ETNewsScraper_content_selectors =
     [''artText'', ''article_wrap'', ''article-content'', ''story-details'', ''article_content'',
      ''article-text'', ''story-content'', ''story-body'', ''articleBody'', ''article-body'']"

definition ETNewsScraper_id_selectors :: "string list" where
  "ETNewsScraper_id_selectors = [''articleBody'', ''article-body'', ''story-content'', ''story-body'']"

text \<open>
  \<^verbatim>\<open>
    main_content = soup.find('div', class_=lambda c: c and ('article' in c or 'story' in c or 'content' in c))
    if main_content:
        paragraphs = main_content.find_all('p')
        if paragraphs:
            content = ' '.join([p.get_text().strip() for p in paragraphs if p.get_text().strip()])
            if content and len(content) > 200:
                return content, "paragraphs in main content"
    return None, None
  \<close>
\<close>

definition paragraphs_in_main_content :: "node \<Rightarrow> (string \<times> string) option" where
  "paragraphs_in_main_content soup =
     (case bs_find (\<lambda>n. has_tag ''div'' n \<and>
                         class_matches (\<lambda>c. contains ''article'' c \<or> contains ''story'' c \<or>
                                             contains ''content'' c) n) soup of
        None \<Rightarrow> None
      | Some main_content \<Rightarrow>
          (let paragraphs = bs_find_all (has_tag ''p'') main_content in
           if paragraphs \<noteq> [] then
             (let content = join_sp (filter (\<lambda>s. s \<noteq> [])
                                       (map (\<lambda>p. strip (get_text p)) paragraphs))
              in if content \<noteq> [] \<and> length content > 200
                 then Some (content, ''paragraphs in main content'') else None)
           else None))"

definition ETNewsScraper_extract_article_content :: "node \<Rightarrow> exn + (string \<times> string) option" where
  "ETNewsScraper_extract_article_content soup =
     (case (case bs_find (has_tag ''article'') soup of
              None \<Rightarrow> Inr None
            | Some article_tag \<Rightarrow>
                (case ETNewsScraper_process_content_element article_tag of
                   Inl e \<Rightarrow> Inl e
                 | Inr content \<Rightarrow>
                     (if truthy content then Inr (Some (the content, ''article tag''))
                      else Inr None))) of
        Inl e \<Rightarrow> Inl e
      | Inr (Some r) \<Rightarrow> Inr (Some r)
      | Inr None \<Rightarrow>
          (case ETNewsScraper_try_selectors has_class ''class: ''
                  ETNewsScraper_content_selectors soup of
             Inl e \<Rightarrow> Inl e
           | Inr (Some r) \<Rightarrow> Inr (Some r)
           | Inr None \<Rightarrow>
               (case ETNewsScraper_try_selectors has_id ''id: ''
                       ETNewsScraper_id_selectors soup of
                  Inl e \<Rightarrow> Inl e
                | Inr (Some r) \<Rightarrow> Inr (Some r)
                | Inr None \<Rightarrow> Inr (paragraphs_in_main_content soup))))"

section \<open>fetch_news_articles.py: \<open>NewsArticleScraper.is_paywall_page\<close>\<close>

text \<open>
  \<^verbatim>\<open>
    indicators = paywall_indicators.get(source.lower(), ['paywall', 'subscription'])
    for indicator in indicators:
        if soup.find(class_=indicator): return True
    article_content = soup.find(class_=['artText', 'article-text']) or soup.find('article')
    return not (article_content and len(article_content.get_text().strip()) > 200)
  \<close>
\<close>

definition NewsArticleScraper_indicators :: "string \<Rightarrow> string list" where
  "NewsArticleScraper_indicators source =
     (if lower source = ''economictimes''
      then [''articleBlocker'', ''paywall_box'', ''prime_paywall'', ''subscribeBtn'']
      else if lower source = ''livemint''
      then [''paywall'', ''subscription-content'', ''paywall-container'']
      else [''paywall'', ''subscription''])"

definition NewsArticleScraper_article_content :: "node \<Rightarrow> node option" where
  "NewsArticleScraper_article_content soup =
     (case bs_find (has_class_in [''artText'', ''article-text'']) soup of
        Some e \<Rightarrow> Some e
      | None \<Rightarrow> bs_find (has_tag ''article'') soup)"

definition NewsArticleScraper_is_paywall_page :: "node \<Rightarrow> string \<Rightarrow> bool" where
  "NewsArticleScraper_is_paywall_page soup source =
     (if list_ex (\<lambda>indicator. bs_find (has_class indicator) soup \<noteq> None)
           (NewsArticleScraper_indicators source)
      then True
      else (case NewsArticleScraper_article_content soup of
              None \<Rightarrow> True
            | Some article_content \<Rightarrow> \<not> (length (strip (get_text article_content)) > 200)))"

section \<open>The orchestrator\<close>

text \<open>
  \<^verbatim>\<open>
    @dataclass
    class ArticleData:
        url: str
        headline: str
        published_date: str
        full_content: Optional[str] = None
        extraction_method: Optional[str] = None
        error: Optional[str] = None
  \<close>
  The URL of a row read by pandas is a string or the missing value NaN (\<open>None\<close> here),
  and the record keeps what it was given.
\<close>

record ArticleData =
  url :: "string option"
  headline :: string
  published_date :: string
  full_content :: "string option"
  extraction_method :: "string option"
  error :: "string option"

text \<open>\<open>ArticleData(url, headline, published_date, error=e)\<close>\<close>

definition failed_article :: "string option \<Rightarrow> string \<Rightarrow> string \<Rightarrow> string \<Rightarrow> ArticleData" where
  "failed_article u h d e =
     \<lparr>url = u, headline = h, published_date = d, full_content = None,
      extraction_method = None, error = Some e\<rparr>"

text \<open>
  The network: what \<open>requests.get\<close>, \<open>raise_for_status\<close> and the parser give for a URL
  at the \<open>n\<close>-th request of the run, either an exception or the parsed page. The number
  of requests made so far is the only state of the network that the scraper changes.
\<close>

datatype response = Raises exn | Page node

type_synonym network = "nat \<Rightarrow> string \<Rightarrow> response"

text \<open>
  The body of the \<open>try\<close> block of \<open>process_single_article\<close>, the same in both Economic
  Times files up to the classifier and the locator it calls:
  \<^verbatim>\<open>
    if pd.isna(url) or url == 'URL not available':
        return ArticleData(url, headline, published_date, error="Invalid URL")
    response = requests.get(url, headers=self.headers, timeout=15)
    response.raise_for_status()
    soup = BeautifulSoup(response.content, 'html.parser')
    if self.is_paywall_page(soup):
        return ArticleData(url, headline, published_date, error="Paywall detected")
    content, method = self.extract_article_content(soup)
    if content:
        return ArticleData(url, headline, published_date, content, method)
    else:
        return ArticleData(url, headline, published_date, error="No content found")
  \<close>
\<close>

definition process_single_article_try ::
  "(node \<Rightarrow> bool) \<Rightarrow> (node \<Rightarrow> exn + (string \<times> string) option) \<Rightarrow> network \<Rightarrow> nat \<Rightarrow>
   string option \<Rightarrow> string \<Rightarrow> string \<Rightarrow> (exn + ArticleData) \<times> nat" where
  "process_single_article_try is_paywall_page extract_article_content net n u h d =
     (case u of
        None \<Rightarrow> (Inr (failed_article u h d ''Invalid URL''), n)
      | Some u' \<Rightarrow>
          if u' = ''URL not available'' then (Inr (failed_article u h d ''Invalid URL''), n)
          else
            (case net n u' of
               Raises e \<Rightarrow> (Inl e, Suc n)
             | Page soup \<Rightarrow>
                 (if is_paywall_page soup
                  then (Inr (failed_article u h d ''Paywall detected''), Suc n)
                  else
                    (case extract_article_content soup of
                       Inl e \<Rightarrow> (Inl e, Suc n)
                     | Inr None \<Rightarrow> (Inr (failed_article u h d ''No content found''), Suc n)
                     | Inr (Some (content, method)) \<Rightarrow>
                         (if content \<noteq> []
                          then (Inr \<lparr>url = u, headline = h, published_date = d,
                                      full_content = Some content,
                                      extraction_method = Some method, error = None\<rparr>, Suc n)
                          else (Inr (failed_article u h d ''No content found''), Suc n))))))"

text \<open>
  The handlers:
  \<^verbatim>\<open>
    except requests.exceptions.RequestException as e:
        return ArticleData(url, headline, published_date, error=f"Request error: {str(e)}")
    except Exception as e:
        return ArticleData(url, headline, published_date, error=f"Unexpected error: {str(e)}")
  \<close>
  The result is still a sum, so that a caller has a branch for an exception that leaves
  the function.
\<close>

definition process_single_article ::
  "(node \<Rightarrow> bool) \<Rightarrow> (node \<Rightarrow> exn + (string \<times> string) option) \<Rightarrow> network \<Rightarrow> nat \<Rightarrow>
   string option \<Rightarrow> string \<Rightarrow> string \<Rightarrow> (exn + ArticleData) \<times> nat" where
  "process_single_article is_paywall_page extract_article_content net n u h d =
     (case process_single_article_try is_paywall_page extract_article_content net n u h d of
        (Inr result, n') \<Rightarrow> (Inr result, n')
      | (Inl (RequestException m), n') \<Rightarrow>
          (Inr (failed_article u h d (''Request error: '' @ m)), n')
      | (Inl (OtherException m), n') \<Rightarrow>
          (Inr (failed_article u h d (''Unexpected error: '' @ m)), n'))"

definition ArticleScraper_process_single_article ::
  "network \<Rightarrow> nat \<Rightarrow> string option \<Rightarrow> string \<Rightarrow> string \<Rightarrow> (exn + ArticleData) \<times> nat" where
  "ArticleScraper_process_single_article =
     process_single_article ArticleScraper_is_paywall_page ArticleScraper_content_and_method"

definition ETNewsScraper_process_single_article ::
  "network \<Rightarrow> nat \<Rightarrow> string option \<Rightarrow> string \<Rightarrow> string \<Rightarrow> (exn + ArticleData) \<times> nat" where
  "ETNewsScraper_process_single_article =
     process_single_article ETNewsScraper_is_paywall_page ETNewsScraper_extract_article_content"

text \<open>The three buckets of a scraper object, empty after \<open>__init__\<close>.\<close>

record scraper =
  article_data :: "ArticleData list"
  failed_urls :: "ArticleData list"
  paywall_urls :: "ArticleData list"

definition new_scraper :: scraper where
  "new_scraper = \<lparr>article_data = [], failed_urls = [], paywall_urls = []\<rparr>"

text \<open>\<open>str(x)\<close> of an optional string: \<open>str(None)\<close> is the text None.\<close>

fun str_opt :: "string option \<Rightarrow> string" where
  "str_opt None = ''None''"
| "str_opt (Some s) = s"

text \<open>
  The routing of \<open>process_articles\<close>:
  \<^verbatim>\<open>
    if result.full_content:
        self.article_data.append(result)
    elif "Paywall" in str(result.error):
        self.paywall_urls.append(result)
    else:
        self.failed_urls.append(result)
  \<close>
\<close>

definition route :: "ArticleData \<Rightarrow> scraper \<Rightarrow> scraper" where
  "route result s =
     (if truthy (full_content result)
      then s\<lparr>article_data := article_data s @ [result]\<rparr>
      else if contains ''Paywall'' (str_opt (error result))
      then s\<lparr>paywall_urls := paywall_urls s @ [result]\<rparr>
      else s\<lparr>failed_urls := failed_urls s @ [result]\<rparr>)"

text \<open>
  The loop of \<open>process_articles\<close> over the rows (\<open>article_url\<close>, \<open>headline\<close>,
  \<open>published_date\<close>) of the input file; \<open>psa\<close> is the scraper's \<open>process_single_article\<close>
  on the network of the run.
\<close>

type_synonym row = "string option \<times> string \<times> string"

text \<open>
  \<open>df = pd.read_csv(self.input_file)\<close> with pandas' defaults: a cell whose text is one
  of the default NA markers, the empty cell among them, is the missing value NaN;
  every other cell of the URL column is its text. Headline and date are only copied
  into the record.
\<close>

definition pandas_na_values :: "string list" where
  "pandas_na_values =
     [[], ''#N/A'', ''#N/A N/A'', ''#NA'', ''-1.#IND'', ''-1.#QNAN'', ''-NaN'', ''-nan'',
      ''1.#IND'', ''1.#QNAN'', ''<NA>'', ''N/A'', ''NA'', ''NULL'', ''NaN'', ''None'', ''n/a'',
      ''nan'', ''null'']"

definition read_csv_cell :: "string \<Rightarrow> string option" where
  "read_csv_cell cell = (if cell \<in> set pandas_na_values then None else Some cell)"

definition read_csv_row :: "string \<times> string \<times> string \<Rightarrow> row" where
  "read_csv_row r = (case r of (article_url, headline', published_date') \<Rightarrow>
                       (read_csv_cell article_url, headline', published_date'))"

type_synonym psa = "nat \<Rightarrow> string option \<Rightarrow> string \<Rightarrow> string \<Rightarrow> (exn + ArticleData) \<times> nat"

fun process_rows :: "psa \<Rightarrow> row list \<Rightarrow> scraper \<Rightarrow> nat \<Rightarrow> exn + (scraper \<times> nat)" where
  "process_rows f [] s n = Inr (s, n)"
| "process_rows f ((u, h, d) # rows) s n =
     (case f n u h d of
        (Inl e, n') \<Rightarrow> Inl e
      | (Inr result, n') \<Rightarrow> process_rows f rows (route result s) n')"

text \<open>
  \<^verbatim>\<open>
    def recheck_paywall_articles(self):
        successfully_extracted = []; still_paywall = []; failed_urls = []
        for article in self.paywall_urls:
            time.sleep(2)
            result = self.process_single_article(article.url, article.headline, article.published_date)
            if result.full_content:
                successfully_extracted.append(result)
            elif "Paywall" in str(result.error):
                still_paywall.append(result)
            else:
                failed_urls.append(result)
        return successfully_extracted, still_paywall, failed_urls
  \<close>
\<close>

fun recheck_loop ::
  "psa \<Rightarrow> ArticleData list \<Rightarrow> ArticleData list \<times> ArticleData list \<times> ArticleData list \<Rightarrow> nat \<Rightarrow>
   exn + ((ArticleData list \<times> ArticleData list \<times> ArticleData list) \<times> nat)" where
  "recheck_loop f [] acc n = Inr (acc, n)"
| "recheck_loop f (article # rest) (successfully_extracted, still_paywall, failed) n =
     (case f n (url article) (headline article) (published_date article) of
        (Inl e, n') \<Rightarrow> Inl e
      | (Inr result, n') \<Rightarrow>
          recheck_loop f rest
            (if truthy (full_content result)
             then (successfully_extracted @ [result], still_paywall, failed)
             else if contains ''Paywall'' (str_opt (error result))
             then (successfully_extracted, still_paywall @ [result], failed)
             else (successfully_extracted, still_paywall, failed @ [result])) n')"

definition recheck_paywall_articles ::
  "psa \<Rightarrow> scraper \<Rightarrow> nat \<Rightarrow>
   exn + ((ArticleData list \<times> ArticleData list \<times> ArticleData list) \<times> nat)" where
  "recheck_paywall_articles f s n = recheck_loop f (paywall_urls s) ([], [], []) n"

text \<open>
  \<open>process_articles\<close>, after the loop (files written by \<open>save_results\<close> are no part of
  the state):
  \<^verbatim>\<open>
    if self.paywall_urls:
        recovered, still_paywall, new_failed = self.recheck_paywall_articles()
        if recovered:
            self.article_data.extend(recovered)
        if still_paywall:
            self.paywall_urls = still_paywall
        if new_failed:
            self.failed_urls.extend(new_failed)
  \<close>
\<close>

definition process_articles :: "psa \<Rightarrow> row list \<Rightarrow> scraper \<Rightarrow> nat \<Rightarrow> exn + (scraper \<times> nat)" where
  "process_articles f rows s n =
     (case process_rows f rows s n of
        Inl e \<Rightarrow> Inl e
      | Inr (s1, n1) \<Rightarrow>
          if paywall_urls s1 \<noteq> [] then
            (case recheck_paywall_articles f s1 n1 of
               Inl e \<Rightarrow> Inl e
             | Inr ((recovered, still_paywall, new_failed), n2) \<Rightarrow>
                 Inr (\<lparr>article_data =
                         (if recovered \<noteq> [] then article_data s1 @ recovered else article_data s1),
                       failed_urls =
                         (if new_failed \<noteq> [] then failed_urls s1 @ new_failed else failed_urls s1),
                       paywall_urls =
                         (if still_paywall \<noteq> [] then still_paywall else paywall_urls s1)\<rparr>, n2))
          else Inr (s1, n1))"

section \<open>Properties and example inputs\<close>

text \<open>The record invariant: exactly one of \<open>full_content\<close> and \<open>error\<close> is set.\<close>

definition exactly_one :: "ArticleData \<Rightarrow> bool" where
  "exactly_one r = ((full_content r = None) \<noteq> (error r = None))"

text \<open>All records a scraper holds, over its three buckets.\<close>

definition all_records :: "scraper \<Rightarrow> ArticleData list" where
  "all_records s = article_data s @ failed_urls s @ paywall_urls s"


text \<open>A text with no whitespace at either end, and a text whose whitespace is single blanks.\<close>

definition trimmed :: "string \<Rightarrow> bool" where
  "trimmed s = (s = [] \<or> (\<not> isspace (hd s) \<and> \<not> isspace (last s)))"

fun single_spaced :: "string \<Rightarrow> bool" where
  "single_spaced [] = True"
| "single_spaced [c] = (isspace c \<longrightarrow> c = CHR 0x20)"
| "single_spaced (c # d # cs) =
     ((isspace c \<longrightarrow> c = CHR 0x20 \<and> \<not> isspace d) \<and> single_spaced (d # cs))"

text \<open>
  Example pages: an article of 300 characters of running text, the same article behind
  a blocker element, and an article with an advertisement that nests a second
  \<open>div\<close>.
\<close>

definition long_text :: string where
  "long_text = replicate 300 (CHR ''z'')"

definition soup_of :: "node list \<Rightarrow> node" where
  "soup_of ch = Elem ''[document]'' [] None ch"

definition article_page :: node where
  "article_page = soup_of [Elem ''article'' [] None [Elem ''p'' [] None [Text NavigableString long_text]]]"

definition blocked_page :: node where
  "blocked_page =
     soup_of [Elem ''div'' [''articleBlocker''] None [Text NavigableString ''Subscribe''],
              Elem ''article'' [] None [Elem ''p'' [] None [Text NavigableString long_text]]]"

definition nested_page :: node where
  "nested_page =
     soup_of [Elem ''article'' [] None
                [Elem ''div'' [''ads''] None [Elem ''div'' [] None [Text NavigableString ''Buy now'']],
                 Elem ''p'' [] None [Text NavigableString long_text]]]"

text \<open>
  Example networks: one that always serves the article, one whose first answer is the
  blocked page, one whose first request is refused by the server, one that serves the
  nested page, one where \<open>requests\<close> rejects the URL for its missing scheme, and one
  that answers 404 with the URL in the message.
\<close>

definition steady_net :: network where
  "steady_net n u = Page article_page"

definition transient_net :: network where
  "transient_net n u = (if n = 0 then Page blocked_page else Page article_page)"

definition flaky_net :: network where
  "flaky_net n u =
     (if n = 0 then Raises (RequestException ''Connection refused'') else Page article_page)"

definition nested_net :: network where
  "nested_net n u = Page nested_page"

definition no_scheme_message :: "string \<Rightarrow> string" where
  "no_scheme_message u =
     ''Invalid URL '' @ CHR 0x27 # u @ CHR 0x27 #
     '': No scheme supplied. Perhaps you meant https://'' @ u @ ''?''"

definition refusing_net :: network where
  "refusing_net n u = Raises (RequestException (no_scheme_message u))"


definition good_record :: ArticleData where
  "good_record =
     \<lparr>url = Some ''http://x/a'', headline = ''H'', published_date = ''1 Jan 2025'',
      full_content = Some long_text, extraction_method = Some ''article tag'', error = None\<rparr>"



definition z201 :: string where
  "z201 = replicate 201 (CHR ''z'')"

definition broken_phrase_text :: string where
  "broken_phrase_text = z201 @ '' Read'' @ [CHR 0x0A] @ ''More News on Mars''"

definition joined_phrase_text :: string where
  "joined_phrase_text = z201 @ '' Read More News on Mars''"

text \<open>
  A run of exactly 200 letters, and a page whose only candidate is a \<open>div\<close> with
  one paragraph that holds the phrase broken by a newline.
\<close>

definition z200 :: string where
  "z200 = replicate 200 (CHR ''z'')"

definition paragraph_page :: node where
  "paragraph_page =
     soup_of [Elem ''div'' [''main-content''] None [Elem ''p'' [] None [Text NavigableString broken_phrase_text]]]"









text \<open>
  A URL cell that the specification calls missing, empty or a placeholder, and the
  record that such a row is to get.
\<close>

definition invalid_url_cell :: "string \<Rightarrow> bool" where
  "invalid_url_cell cell = (cell \<in> set pandas_na_values \<or> cell = ''URL not available'')"

definition invalid_url_record :: "string \<times> string \<times> string \<Rightarrow> ArticleData" where
  "invalid_url_record r = failed_article (read_csv_cell (fst r)) (fst (snd r)) (snd (snd r)) ''Invalid URL''"

text \<open>
  What a cascade step of articles_data_ET.py that yields no content leaves of the
  page: its candidate, if there is one, pruned in place. \<open>page_before\<close> is the page as
  the steps tried so far have left it, when each of them was rejected.
\<close>

definition ArticleScraper_rejected :: "(node \<Rightarrow> bool) \<Rightarrow> node \<Rightarrow> node" where
  "ArticleScraper_rejected P soup =
     (case bs_find P soup of
        None \<Rightarrow> soup
      | Some el \<Rightarrow> (case decompose_unwanted el of
                     Inl e \<Rightarrow> soup
                   | Inr el' \<Rightarrow> replace_first P el' soup))"

definition page_before :: "(node \<Rightarrow> bool) list \<Rightarrow> node \<Rightarrow> node" where
  "page_before steps soup = foldl (\<lambda>s P. ArticleScraper_rejected P s) soup steps"

text \<open>A node without what it contains: what a filter by tag, class or id looks at.\<close>

fun root :: "node \<Rightarrow> node" where
  "root (Text k s) = Text k s"
| "root (Elem t cs i ch) = Elem t cs i []"

text \<open>
  Example pages for the cascade: a page with one element that holds one run of text, a
  page whose only candidate is a paragraph inside a \<open>div\<close> of class
  \<open>main-content\<close>, and an article with an advertisement, an inline script and a
  paragraph whose text ends in ragged whitespace and a boilerplate phrase; what the
  sanitizer is to make of that paragraph; and a page on which one candidate lies
  inside another.
\<close>

definition boxed_page :: "string \<Rightarrow> string list \<Rightarrow> string option \<Rightarrow> string \<Rightarrow> node" where
  "boxed_page t cs i s = soup_of [Elem t cs i [Text NavigableString s]]"

definition paragraphs_page :: "string \<Rightarrow> node" where
  "paragraphs_page s =
     soup_of [Elem ''div'' [''main-content''] None [Elem ''p'' [] None [Text NavigableString s]]]"

definition footer_text :: string where
  "footer_text = long_text @ '' '' @ [CHR 0x0A] @ '' end. Read More News on Mars''"

definition cut_text :: string where
  "cut_text = long_text @ '' end.''"

definition cluttered_article :: node where
  "cluttered_article =
     Elem ''article'' [] None
       [Elem ''div'' [''ads''] None [Text NavigableString ''Buy now''],
        Elem ''script'' [] None [Text Script ''var a;''],
        Elem ''p'' [] None [Text NavigableString footer_text]]"

definition pruned_article :: node where
  "pruned_article =
     Elem ''article'' [] None
       [Elem ''script'' [] None [Text Script ''var a;''],
        Elem ''p'' [] None [Text NavigableString footer_text]]"

definition q250 :: string where
  "q250 = replicate 250 (CHR ''q'')"

definition rerun_page :: node where
  "rerun_page =
     soup_of [Elem ''div'' [''article_wrap''] None
                [Elem ''div'' [''artText'', ''ads''] None [Text NavigableString ''short''],
                 Text NavigableString long_text],
              Elem ''div'' [''artText''] None [Text NavigableString q250]]"

definition rerun_page_after :: node where
  "rerun_page_after =
     soup_of [Elem ''div'' [''article_wrap''] None [Text NavigableString long_text],
              Elem ''div'' [''artText''] None [Text NavigableString q250]]"

section \<open>Lemmas: whitespace and \<open>clean_text\<close>\<close>

lemma strip_trimmed_id: "trimmed s \<Longrightarrow> strip s = s"
proof (cases "s = []")
  case True
  then show ?thesis by (simp add: strip_def)
next
  case False
  assume "trimmed s"
  with False have h: "\<not> isspace (hd s)" and l: "\<not> isspace (last s)" by (auto simp: trimmed_def)
  from h False have a: "dropWhile isspace s = s" by (cases s) auto
  from l False have "\<not> isspace (hd (rev s))" by (simp add: hd_rev)
  with False have b: "dropWhile isspace (rev s) = rev s" by (cases "rev s") auto
  show ?thesis by (simp add: strip_def a b)
qed

lemma trimmed_strip: "trimmed (strip s)"
proof (cases "strip s = []")
  case True
  then show ?thesis by (simp add: trimmed_def)
next
  case False
  define y where "y = dropWhile isspace s"
  define z where "z = dropWhile isspace (rev y)"
  have st: "strip s = rev z" by (simp add: strip_def y_def z_def)
  with False have z: "z \<noteq> []" by simp
  then have hz: "\<not> isspace (hd z)" unfolding z_def by (rule hd_dropWhile)
  have "rev y = takeWhile isspace (rev y) @ z" by (simp add: z_def)
  then have "y = rev z @ rev (takeWhile isspace (rev y))"
    by (metis rev_append rev_rev_ident)
  then have hy: "hd y = hd (rev z)" using z by (metis hd_append2 rev_is_Nil_conv)
  have "y \<noteq> []" using z by (auto simp: z_def)
  then have "\<not> isspace (hd y)" unfolding y_def by (rule hd_dropWhile)
  with hy have "\<not> isspace (hd (rev z))" by simp
  moreover have "\<not> isspace (last (rev z))" using hz z by (simp add: last_rev)
  ultimately show ?thesis by (simp add: st trimmed_def)
qed

lemma strip_strip: "strip (strip s) = strip s"
  using trimmed_strip strip_trimmed_id by blast

lemma re_sub_ws_Nil_iff: "re_sub_ws s = [] \<longleftrightarrow> s = []"
  by (cases s) auto

lemma hd_re_sub_ws: "s \<noteq> [] \<Longrightarrow> \<not> isspace (hd s) \<Longrightarrow> hd (re_sub_ws s) = hd s"
  by (cases s) auto

lemma last_re_sub_ws: "s \<noteq> [] \<Longrightarrow> \<not> isspace (last s) \<Longrightarrow> last (re_sub_ws s) = last s"
proof (induction s rule: re_sub_ws.induct)
  case 1
  then show ?case by simp
next
  case (2 c cs)
  show ?case
  proof (cases "isspace c")
    case True
    let ?d = "dropWhile isspace cs"
    from "2.prems" True have cs: "cs \<noteq> []" by auto
    have d: "?d \<noteq> []"
    proof
      assume "?d = []"
      then have "\<forall>x\<in>set cs. isspace x" by (simp add: dropWhile_eq_Nil_conv)
      with cs "2.prems" show False by auto
    qed
    have "cs = takeWhile isspace cs @ ?d" by simp
    with d have l: "last ?d = last cs" by (metis last_appendR)
    with "2.prems" cs have "\<not> isspace (last ?d)" by simp
    with "2.IH"(1)[OF True d] l have "last (re_sub_ws ?d) = last cs" by simp
    moreover have "re_sub_ws (c # cs) = CHR 0x20 # re_sub_ws ?d" using True by simp
    moreover have "re_sub_ws ?d \<noteq> []" using d by (simp only: re_sub_ws_Nil_iff not_False_eq_True)
    ultimately have "last (re_sub_ws (c # cs)) = last cs" by (metis last_ConsR)
    then show ?thesis using cs by (metis last_ConsR)
  next
    case False
    show ?thesis
    proof (cases "cs = []")
      case True
      with False show ?thesis by simp
    next
      case ne: False
      with "2.prems" have "\<not> isspace (last cs)" by simp
      with "2.IH"(2)[OF False ne] have "last (re_sub_ws cs) = last cs" by simp
      with False ne show ?thesis by (simp add: re_sub_ws_Nil_iff)
    qed
  qed
qed

lemma trimmed_re_sub_ws: "trimmed s \<Longrightarrow> trimmed (re_sub_ws s)"
  by (auto simp: trimmed_def re_sub_ws_Nil_iff hd_re_sub_ws last_re_sub_ws)

lemma isspace_blank: "isspace (CHR 0x20)"
  by (simp add: isspace_def)

lemma set_re_sub_ws: "c \<in> set (re_sub_ws s) \<Longrightarrow> isspace c \<Longrightarrow> c = CHR 0x20"
  by (induction s rule: re_sub_ws.induct) (auto split: if_splits)

lemma re_sub_ws_fixed: "single_spaced s \<Longrightarrow> re_sub_ws s = s"
  by (induction s rule: single_spaced.induct) auto

lemma hd_dropWhile_nonspace: "dropWhile isspace cs = d # ds \<Longrightarrow> \<not> isspace d"
  by (metis hd_dropWhile list.sel(1) list.distinct(1))

lemma single_spaced_re_sub_ws: "single_spaced (re_sub_ws s)"
proof (induction s rule: re_sub_ws.induct)
  case 1
  then show ?case by simp
next
  case (2 c cs)
  show ?case
  proof (cases "isspace c")
    case True
    let ?d = "dropWhile isspace cs"
    show ?thesis
    proof (cases ?d)
      case Nil
      have "re_sub_ws (c # cs) = CHR 0x20 # re_sub_ws ?d" using True by simp
      also have "\<dots> = [CHR 0x20]" by (simp only: Nil re_sub_ws.simps)
      finally show ?thesis by simp
    next
      case (Cons d ds)
      then have nd: "\<not> isspace d" by (rule hd_dropWhile_nonspace)
      from "2.IH"(1)[OF True] have "single_spaced (re_sub_ws ?d)" .
      moreover have "re_sub_ws ?d = d # re_sub_ws ds" using nd by (simp only: Cons re_sub_ws.simps if_False)
      moreover have "re_sub_ws (c # cs) = CHR 0x20 # re_sub_ws ?d" using True by simp
      ultimately show ?thesis using nd by (simp add: isspace_blank)
    qed
  next
    case False
    from "2.IH"(2)[OF False] have ss: "single_spaced (re_sub_ws cs)" .
    show ?thesis
    proof (cases "re_sub_ws cs")
      case Nil
      with False show ?thesis by simp
    next
      case (Cons d ds)
      with False ss show ?thesis by simp
    qed
  qed
qed

lemma re_sub_ws_idem: "re_sub_ws (re_sub_ws s) = re_sub_ws s"
  using single_spaced_re_sub_ws re_sub_ws_fixed by blast

lemma replace_char_id: "a \<notin> set s \<Longrightarrow> replace_char a b s = s"
  by (induction s) (auto simp: replace_char_def)

lemma replace_ws_re_sub_ws:
  "isspace a \<Longrightarrow> a \<noteq> CHR 0x20 \<Longrightarrow> replace_char a b (re_sub_ws s) = re_sub_ws s"
  using set_re_sub_ws by (intro replace_char_id) blast

lemma clean_text_eq: "clean_text s = re_sub_ws (strip s)"
proof (cases "s = []")
  case True
  then show ?thesis by (simp add: clean_text_def strip_def)
next
  case False
  have "isspace (CHR 0x09)" "isspace (CHR 0x0A)" "isspace (CHR 0x0D)"
    by (simp_all add: isspace_def)
  then show ?thesis using False by (simp add: clean_text_def replace_ws_re_sub_ws)
qed

lemma clean_text_idem: "clean_text (clean_text s) = clean_text s"
proof -
  have "trimmed (re_sub_ws (strip s))" using trimmed_strip trimmed_re_sub_ws by blast
  then have "strip (re_sub_ws (strip s)) = re_sub_ws (strip s)" by (rule strip_trimmed_id)
  then show ?thesis by (simp add: clean_text_eq re_sub_ws_idem)
qed

lemma strip_plain: "\<forall>c\<in>set s. \<not> isspace c \<Longrightarrow> strip s = s"
  by (rule strip_trimmed_id) (auto simp: trimmed_def)

lemma re_sub_ws_plain: "\<forall>c\<in>set s. \<not> isspace c \<Longrightarrow> re_sub_ws s = s"
  by (induction s) auto

lemma clean_text_plain: "\<forall>c\<in>set s. \<not> isspace c \<Longrightarrow> clean_text s = s"
  by (simp add: clean_text_eq strip_plain re_sub_ws_plain)

lemma contains_set: "contains p s \<Longrightarrow> set p \<subseteq> set s"
proof (induction s)
  case Nil
  then show ?case by simp
next
  case (Cons a s)
  from Cons.prems have "take (length p) (a # s) = p \<or> contains p s" by simp
  then show ?case
  proof
    assume "take (length p) (a # s) = p"
    then show ?thesis by (metis set_take_subset)
  next
    assume "contains p s"
    with Cons.IH show ?thesis by auto
  qed
qed

section \<open>Lemmas: the boilerplate loop\<close>






lemma remove_boilerplate_returns:
  "[] \<notin> set ps \<Longrightarrow> \<exists>r. remove_boilerplate ps s = Inr r"
  by (induction ps arbitrary: s) auto



lemma remove_boilerplate_id:
  "\<forall>p\<in>set ps. \<not> contains p s \<Longrightarrow> remove_boilerplate ps s = Inr s"
  by (induction ps) auto








section \<open>Lemmas: the orchestrator\<close>

lemma psa_returns:
  "\<exists>r n'. process_single_article ip ex net n u h d = (Inr r, n')"
  by (auto simp: process_single_article_def process_single_article_try_def
      split: option.splits response.splits sum.splits prod.splits exn.splits if_splits)

lemma psa_exactly_one:
  "process_single_article ip ex net n u h d = (Inr r, n') \<Longrightarrow> exactly_one r"
  by (auto simp: process_single_article_def process_single_article_try_def exactly_one_def
      failed_article_def
      split: option.splits response.splits sum.splits prod.splits exn.splits if_splits)

lemma route_buckets:
  "set (article_data (route r s)) \<union> set (failed_urls (route r s)) \<union> set (paywall_urls (route r s))
   = insert r (set (article_data s) \<union> set (failed_urls s) \<union> set (paywall_urls s))"
  by (auto simp: route_def)

lemma process_rows_inv:
  assumes f: "\<And>n u h d r n'. f n u h d = (Inr r, n') \<Longrightarrow> Q r"
  shows "process_rows f rows s n = Inr (s', n') \<Longrightarrow> list_all Q (all_records s)
     \<Longrightarrow> list_all Q (all_records s')"
proof (induction rows arbitrary: s n)
  case Nil
  then show ?case by simp
next
  case (Cons row rows)
  obtain u h d where row: "row = (u, h, d)" by (cases row)
  from Cons.prems(1) obtain r n1 where r: "f n u h d = (Inr r, n1)"
    and rest: "process_rows f rows (route r s) n1 = Inr (s', n')"
    by (auto simp: row split: prod.splits sum.splits)
  have "Q r" using f r by blast
  then have "list_all Q (all_records (route r s))"
    using Cons.prems(2) by (auto simp: all_records_def route_def)
  then show ?case using Cons.IH rest by blast
qed

lemma recheck_loop_inv:
  assumes f: "\<And>n u h d r n'. f n u h d = (Inr r, n') \<Longrightarrow> Q r"
  shows "recheck_loop f as (a, b, c) n = Inr ((a', b', c'), n') \<Longrightarrow>
     list_all Q a \<Longrightarrow> list_all Q b \<Longrightarrow> list_all Q c \<Longrightarrow>
     list_all Q a' \<and> list_all Q b' \<and> list_all Q c'"
proof (induction as arbitrary: a b c n)
  case Nil
  then show ?case by simp
next
  case (Cons x as)
  from Cons.prems(1) obtain r n1 where r: "f n (url x) (headline x) (published_date x) = (Inr r, n1)"
    by (auto split: prod.splits sum.splits)
  have q: "Q r" using f r by blast
  show ?case
    using Cons.prems Cons.IH q r
    by (auto split: if_splits)
qed

lemma process_articles_inv:
  assumes f: "\<And>n u h d r n'. f n u h d = (Inr r, n') \<Longrightarrow> Q r"
  shows "process_articles f rows s n = Inr (s', n') \<Longrightarrow> list_all Q (all_records s)
     \<Longrightarrow> list_all Q (all_records s')"
proof -
  assume pa: "process_articles f rows s n = Inr (s', n')" and q: "list_all Q (all_records s)"
  from pa obtain s1 n1 where p1: "process_rows f rows s n = Inr (s1, n1)"
    by (auto simp: process_articles_def split: sum.splits)
  have q1: "list_all Q (all_records s1)" using process_rows_inv[where f=f and Q=Q, OF f p1 q] by simp
  show ?thesis
  proof (cases "paywall_urls s1 = []")
    case True
    then show ?thesis using pa p1 q1 by (simp add: process_articles_def)
  next
    case False
    with pa p1 obtain a b c where rc: "recheck_loop f (paywall_urls s1) ([], [], []) n1 = Inr ((a, b, c), n')"
      and s': "s' = \<lparr>article_data = (if a \<noteq> [] then article_data s1 @ a else article_data s1),
                       failed_urls = (if c \<noteq> [] then failed_urls s1 @ c else failed_urls s1),
                       paywall_urls = (if b \<noteq> [] then b else paywall_urls s1)\<rparr>"
      by (auto simp: process_articles_def recheck_paywall_articles_def split: sum.splits prod.splits)
    have "list_all Q a \<and> list_all Q b \<and> list_all Q c"
      using recheck_loop_inv[where f=f and Q=Q, OF f rc] by simp
    then show ?thesis using q1 by (auto simp: s' all_records_def)
  qed
qed

lemma process_rows_returns:
  assumes f: "\<And>n u h d. \<exists>r n'. f n u h d = (Inr r, n')"
  shows "\<exists>s' n'. process_rows f rows s n = Inr (s', n') \<and>
     length (all_records s') = length (all_records s) + length rows"
proof (induction rows arbitrary: s n)
  case Nil
  then show ?case by simp
next
  case (Cons row rows)
  obtain u h d where row: "row = (u, h, d)" by (cases row)
  from f obtain r n1 where r: "f n u h d = (Inr r, n1)" by blast
  have len: "length (all_records (route r s)) = Suc (length (all_records s))"
    by (simp add: all_records_def route_def)
  from Cons.IH[of "route r s" n1] show ?case
    by (auto simp: row r len)
qed

lemma recheck_loop_returns:
  assumes f: "\<And>n u h d. \<exists>r n'. f n u h d = (Inr r, n')"
  shows "\<exists>acc' n'. recheck_loop f as (a, b, c) n = Inr (acc', n')"
proof (induction as arbitrary: a b c n)
  case Nil
  then show ?case by simp
next
  case (Cons x as)
  from f obtain r n1 where r: "f n (url x) (headline x) (published_date x) = (Inr r, n1)" by blast
  show ?case using Cons.IH by (simp add: r)
qed

lemma process_articles_returns:
  assumes f: "\<And>n u h d. \<exists>r n'. f n u h d = (Inr r, n')"
  shows "\<exists>s' n'. process_articles f rows s n = Inr (s', n')"
proof -
  from process_rows_returns[where f=f, OF f] obtain s1 n1 where p1: "process_rows f rows s n = Inr (s1, n1)"
    by blast
  from recheck_loop_returns[where f=f, OF f] obtain acc n2 where
    rc: "recheck_loop f (paywall_urls s1) ([], [], []) n1 = Inr (acc, n2)" by blast
  obtain a b c where acc: "acc = (a, b, c)" by (cases acc) auto
  show ?thesis
    by (simp add: process_articles_def p1 recheck_paywall_articles_def rc acc)
qed

lemma psa_failure_modes:
  "\<exists>r n'. process_single_article ip ex net n u h d = (Inr r, n') \<and>
     (full_content r = None \<longrightarrow> (\<exists>m. error r = Some m \<and> m \<noteq> [])) \<and>
     (u = None \<or> u = Some ''URL not available'' \<longrightarrow> error r = Some ''Invalid URL'') \<and>
     (\<forall>u' m. u = Some u' \<and> u' \<noteq> ''URL not available'' \<and> net n u' = Raises (RequestException m)
        \<longrightarrow> error r = Some (''Request error: '' @ m)) \<and>
     (\<forall>u' m. u = Some u' \<and> u' \<noteq> ''URL not available'' \<and> net n u' = Raises (OtherException m)
        \<longrightarrow> error r = Some (''Unexpected error: '' @ m))"
  by (auto simp: process_single_article_def process_single_article_try_def failed_article_def
      split: option.splits response.splits sum.splits prod.splits exn.splits if_splits)

lemma psa_invalid_url:
  "u = None \<or> u = Some ''URL not available'' \<Longrightarrow>
   process_single_article ip ex net n u h d = (Inr (failed_article u h d ''Invalid URL''), n)"
  by (auto simp: process_single_article_def process_single_article_try_def)

lemma psa_request_made:
  "u = Some u' \<Longrightarrow> u' \<noteq> ''URL not available'' \<Longrightarrow>
   \<exists>r. process_single_article ip ex net n u h d = (Inr r, Suc n) \<and> error r \<noteq> Some ''Invalid URL''"
  by (auto simp: process_single_article_def process_single_article_try_def failed_article_def
      split: option.splits response.splits sum.splits prod.splits exn.splits if_splits)






section \<open>Lemmas: rows read from the input file\<close>

lemma read_csv_cell_invalid:
  "invalid_url_cell cell \<Longrightarrow>
   read_csv_cell cell = None \<or> read_csv_cell cell = Some ''URL not available''"
  by (auto simp: read_csv_cell_def invalid_url_cell_def)

lemma route_invalid:
  "route (failed_article u h d ''Invalid URL'') s
     = s\<lparr>failed_urls := failed_urls s @ [failed_article u h d ''Invalid URL'']\<rparr>"
  by (simp add: route_def failed_article_def)

lemma process_rows_invalid:
  assumes "list_all (\<lambda>r. invalid_url_cell (fst r)) cells"
  shows "process_rows (process_single_article ip ex net) (map read_csv_row cells) s n
         = Inr (s\<lparr>failed_urls := failed_urls s @ map invalid_url_record cells\<rparr>, n)"
  using assms
proof (induction cells arbitrary: s)
  case Nil
  then show ?case by simp
next
  case (Cons r cells)
  obtain cell h d where r: "r = (cell, h, d)" by (cases r) auto
  from Cons.prems r have c: "invalid_url_cell cell"
    and rest: "list_all (\<lambda>r. invalid_url_cell (fst r)) cells"
    by simp_all
  have p: "process_single_article ip ex net n (read_csv_cell cell) h d
             = (Inr (failed_article (read_csv_cell cell) h d ''Invalid URL''), n)"
    using read_csv_cell_invalid[OF c] by (rule psa_invalid_url)
  have "process_rows (process_single_article ip ex net) (map read_csv_row (r # cells)) s n
        = process_rows (process_single_article ip ex net) (map read_csv_row cells)
            (route (failed_article (read_csv_cell cell) h d ''Invalid URL'') s) n"
    by (simp add: r read_csv_row_def p)
  also have "\<dots> = Inr (s\<lparr>failed_urls := failed_urls s @ map invalid_url_record (r # cells)\<rparr>, n)"
    unfolding Cons.IH[OF rest] by (simp add: route_invalid r invalid_url_record_def)
  finally show ?case .
qed

lemma process_articles_invalid:
  assumes "list_all (\<lambda>r. invalid_url_cell (fst r)) cells"
  shows "process_articles (process_single_article ip ex net) (map read_csv_row cells) new_scraper n
         = Inr (\<lparr>article_data = [], failed_urls = map invalid_url_record cells,
                  paywall_urls = []\<rparr>, n)"
  by (simp add: process_articles_def process_rows_invalid[OF assms] new_scraper_def)

section \<open>Lemmas: the example pages\<close>

lemma finish_content_plain:
  assumes "\<forall>c\<in>set s. \<not> isspace c" and "\<forall>p\<in>set bp. CHR 0x20 \<in> set p"
  shows "finish_content bp s = Inr (if 200 < length s then Some s else None)"
proof -
  have "\<forall>p\<in>set bp. \<not> contains p s"
  proof
    fix p assume "p \<in> set bp"
    with assms(2) have "CHR 0x20 \<in> set p" by blast
    moreover have "CHR 0x20 \<notin> set s" using assms(1) isspace_blank by blast
    ultimately show "\<not> contains p s" using contains_set by blast
  qed
  then have "remove_boilerplate bp s = Inr s" by (rule remove_boilerplate_id)
  then show ?thesis using assms(1) by (simp add: finish_content_def clean_text_plain)
qed

lemma ET_boilerplate_blank: "\<forall>p\<in>set ET_boilerplate_text. CHR 0x20 \<in> set p"
  by (simp add: ET_boilerplate_text_def)

lemma long_text_plain: "\<forall>c\<in>set long_text. \<not> isspace c"
  by (simp add: long_text_def isspace_def)

lemma long_text_facts:
  "length long_text = 300" "long_text \<noteq> []" "strip long_text = long_text"
  "finish_content ET_boilerplate_text long_text = Inr (Some long_text)"
proof -
  show "length long_text = 300" by (simp add: long_text_def)
  then show "long_text \<noteq> []" by auto
  show "strip long_text = long_text" using long_text_plain by (rule strip_plain)
  show "finish_content ET_boilerplate_text long_text = Inr (Some long_text)"
    using finish_content_plain[OF long_text_plain ET_boilerplate_blank] \<open>length long_text = 300\<close> by simp
qed

lemmas text_simps = get_text_def get_text_sep_strip_def interesting_string_types_def string_container_def

lemma ET_extract_article_page:
  "ArticleScraper_extract_article_content article_page
     = Inr (Some (long_text, ''article tag''), article_page)"
  by (simp add: ArticleScraper_extract_article_content_def article_page_def soup_of_def bs_find_def
      ArticleScraper_process_content_element_def ArticleScraper_unwanted_def ArticleScraper_listed_def
      text_simps long_text_facts)

lemma ET_content_article_page:
  "ArticleScraper_content_and_method article_page = Inr (Some (long_text, ''article tag''))"
  by (simp add: ArticleScraper_content_and_method_def ET_extract_article_page)

lemma ET_paywall_article_page: "\<not> ArticleScraper_is_paywall_page article_page"
  by (simp add: ArticleScraper_is_paywall_page_def ArticleScraper_paywall_indicators_def
      ArticleScraper_article_content_def article_page_def soup_of_def bs_find_def text_simps long_text_facts)

lemma ET_paywall_blocked_page: "ArticleScraper_is_paywall_page blocked_page"
  by (simp add: ArticleScraper_is_paywall_page_def ArticleScraper_paywall_indicators_def
      blocked_page_def soup_of_def bs_find_def)

lemma contains_long_text: "CHR 0x20 \<in> set p \<Longrightarrow> contains p long_text = False"
  using contains_set long_text_plain isspace_blank by blast

lemma ETI_strip_article:
  "ETNewsScraper_strip_element
     (Elem ''article'' [] None [Elem ''p'' [] None [Text NavigableString long_text]])
   = Elem ''[document]'' [] None
       [Elem ''article'' [] None [Elem ''p'' [] None [Text NavigableString long_text]]]"
  by (simp add: ETNewsScraper_strip_element_def ETNewsScraper_unwanted_classes_def
      ETNewsScraper_unwanted_ids_def reparse_def string_container_def)

lemma ETI_extract_article_page:
  "ETNewsScraper_extract_article_content article_page = Inr (Some (long_text, ''article tag''))"
  by (simp add: ETNewsScraper_extract_article_content_def article_page_def soup_of_def bs_find_def
      ETNewsScraper_process_content_element_def ETI_strip_article
      text_simps long_text_facts)

lemma ETI_paywall_article_page: "\<not> ETNewsScraper_is_paywall_page article_page"
  by (simp add: ETNewsScraper_is_paywall_page_def ETNewsScraper_paywall_indicators_def
      ETNewsScraper_paywall_texts_def article_page_def soup_of_def bs_find_def long_text_facts
      contains_long_text)

lemma ETI_paywall_blocked_page: "ETNewsScraper_is_paywall_page blocked_page"
  by (simp add: ETNewsScraper_is_paywall_page_def ETNewsScraper_paywall_indicators_def
      blocked_page_def soup_of_def bs_find_def)

lemma ET_psa_steady:
  "ArticleScraper_process_single_article steady_net n (Some ''http://x/a'') ''H'' ''1 Jan 2025''
   = (Inr good_record, Suc n)"
  by (simp add: ArticleScraper_process_single_article_def process_single_article_def
      process_single_article_try_def steady_net_def ET_paywall_article_page ET_content_article_page
      long_text_facts good_record_def)

lemma ETI_psa_steady:
  "ETNewsScraper_process_single_article steady_net n (Some ''http://x/a'') ''H'' ''1 Jan 2025''
   = (Inr good_record, Suc n)"
  by (simp add: ETNewsScraper_process_single_article_def process_single_article_def
      process_single_article_try_def steady_net_def ETI_paywall_article_page ETI_extract_article_page
      long_text_facts good_record_def)

lemma psa_transient:
  assumes "ip blocked_page" "\<not> ip article_page"
    "ex article_page = Inr (Some (long_text, ''article tag''))"
  shows "process_articles (process_single_article ip ex transient_net)
           [(Some ''http://x/a'', ''H'', ''1 Jan 2025'')] new_scraper 0
         = Inr (\<lparr>article_data = [good_record], failed_urls = [],
                  paywall_urls = [failed_article (Some ''http://x/a'') ''H'' ''1 Jan 2025'' ''Paywall detected'']\<rparr>, 2)"
proof -
  let ?f = "process_single_article ip ex transient_net"
  have a: "?f 0 (Some ''http://x/a'') ''H'' ''1 Jan 2025''
      = (Inr (failed_article (Some ''http://x/a'') ''H'' ''1 Jan 2025'' ''Paywall detected''), 1)"
    using assms by (simp add: process_single_article_def process_single_article_try_def transient_net_def)
  have b: "?f 1 (Some ''http://x/a'') ''H'' ''1 Jan 2025'' = (Inr good_record, 2)"
    using assms by (simp add: process_single_article_def process_single_article_try_def transient_net_def
        long_text_facts good_record_def)
  have c: "contains ''Paywall'' ''Paywall detected''" by simp
  show ?thesis
    using a b c
    by (simp add: process_articles_def route_def new_scraper_def failed_article_def
        recheck_paywall_articles_def good_record_def long_text_facts)
qed

lemma ET_extract_nested_page:
  "ArticleScraper_content_and_method nested_page
     = Inl (OtherException attribute_error_message)"
  by (simp add: ArticleScraper_content_and_method_def
      ArticleScraper_extract_article_content_def nested_page_def soup_of_def bs_find_def
      ArticleScraper_process_content_element_def ArticleScraper_unwanted_def ArticleScraper_listed_def)

lemma ET_paywall_nested_page: "\<not> ArticleScraper_is_paywall_page nested_page"
  by (simp add: ArticleScraper_is_paywall_page_def ArticleScraper_paywall_indicators_def
      ArticleScraper_article_content_def nested_page_def soup_of_def bs_find_def text_simps
      strip_def isspace_def long_text_def)

lemma ET_psa_article:
  "net n ''http://x/a'' = Page article_page \<Longrightarrow>
   ArticleScraper_process_single_article net n (Some ''http://x/a'') ''H'' ''1 Jan 2025''
   = (Inr good_record, Suc n)"
  by (simp add: ArticleScraper_process_single_article_def process_single_article_def
      process_single_article_try_def ET_paywall_article_page ET_content_article_page
      long_text_facts good_record_def)

lemma ET_rows_flaky:
  "process_rows (ArticleScraper_process_single_article flaky_net)
     [(Some ''http://x/b'', ''B'', ''D''), (Some ''http://x/a'', ''H'', ''1 Jan 2025'')] new_scraper 0
   = Inr (\<lparr>article_data = [good_record],
            failed_urls = [failed_article (Some ''http://x/b'') ''B'' ''D''
                             ''Request error: Connection refused''],
            paywall_urls = []\<rparr>, 2)"
proof -
  have a: "ArticleScraper_process_single_article flaky_net 0 (Some ''http://x/b'') ''B'' ''D''
      = (Inr (failed_article (Some ''http://x/b'') ''B'' ''D'' ''Request error: Connection refused''), 1)"
    by (simp add: ArticleScraper_process_single_article_def process_single_article_def
        process_single_article_try_def flaky_net_def)
  have b: "ArticleScraper_process_single_article flaky_net 1 (Some ''http://x/a'') ''H'' ''1 Jan 2025''
      = (Inr good_record, 2)"
    using ET_psa_article[of flaky_net 1] by (simp add: flaky_net_def)
  show ?thesis
    using a b
    by (simp add: route_def new_scraper_def failed_article_def good_record_def long_text_facts)
qed

section \<open>Lemmas: the example texts and the sanitizers on a paragraph\<close>






lemma contains_block:
  "p \<noteq> [] \<Longrightarrow> hd p \<noteq> c \<Longrightarrow> contains p (replicate n c @ t) = contains p t"
  by (induction n) (auto simp: take_Cons' neq_Nil_conv)

lemma split_head_block:
  "p \<noteq> [] \<Longrightarrow> hd p \<noteq> c \<Longrightarrow> split_head p (replicate n c @ t) = replicate n c @ split_head p t"
  by (induction n) (auto simp: take_Cons' neq_Nil_conv)

lemma re_sub_ws_block:
  "\<not> isspace c \<Longrightarrow> re_sub_ws (replicate n c @ t) = replicate n c @ re_sub_ws t"
  by (induction n) auto

lemma strip_block:
  assumes "\<not> isspace c" "0 < n"
  shows "strip (replicate n c @ t) = replicate n c @ rev (dropWhile isspace (rev t))"
proof -
  obtain k where n: "n = Suc k" using assms(2) by (cases n) auto
  have a: "dropWhile isspace (replicate n c @ t) = replicate n c @ t"
    using assms(1) by (simp add: n)
  have b: "dropWhile isspace (rev t @ replicate n c) = dropWhile isspace (rev t) @ replicate n c"
    using assms(1) by (simp add: dropWhile_append n)
  show ?thesis by (simp add: strip_def a b)
qed

lemma clean_text_block:
  "\<not> isspace c \<Longrightarrow> 0 < n \<Longrightarrow>
   clean_text (replicate n c @ t) = replicate n c @ re_sub_ws (rev (dropWhile isspace (rev t)))"
  by (simp add: clean_text_eq strip_block re_sub_ws_block)

lemma z_not_space: "\<not> isspace (CHR ''z'')"
  by (simp add: isspace_def)

lemma broken_finish:
  "finish_content ET_boilerplate_text broken_phrase_text = Inr (Some joined_phrase_text)"
proof -
  have a: "remove_boilerplate ET_boilerplate_text broken_phrase_text = Inr broken_phrase_text"
    by (simp add: ET_boilerplate_text_def broken_phrase_text_def z201_def contains_block)
  have b: "clean_text broken_phrase_text = joined_phrase_text"
    by (simp add: broken_phrase_text_def joined_phrase_text_def z201_def clean_text_block z_not_space
        isspace_def)
  have c: "length joined_phrase_text = 224" by (simp add: joined_phrase_text_def z201_def)
  show ?thesis by (simp add: finish_content_def a b c)
qed

lemma joined_finish:
  "finish_content ET_boilerplate_text joined_phrase_text = Inr (Some z201)"
proof -
  have a: "remove_boilerplate ET_boilerplate_text joined_phrase_text = Inr (z201 @ '' '')"
    by (simp add: ET_boilerplate_text_def joined_phrase_text_def z201_def contains_block split_head_block)
  have b: "clean_text (z201 @ '' '') = z201"
    using clean_text_block[of "CHR ''z''" 201 "'' ''"] by (simp add: z201_def z_not_space isspace_def)
  have c: "length z201 = 201" by (simp add: z201_def)
  show ?thesis by (simp add: finish_content_def a b c)
qed

lemma finish_content_fixed:
  assumes "finish_content bp s = Inr (Some t)" "list_all (\<lambda>p. \<not> contains p t) bp"
  shows "finish_content bp t = Inr (Some t)"
proof -
  from assms(1) obtain x where t: "t = clean_text x" and len: "200 < length t"
    by (auto simp: finish_content_def Let_def split: sum.splits if_splits)
  have "remove_boilerplate bp t = Inr t"
    using assms(2) by (intro remove_boilerplate_id) (simp add: list_all_iff)
  moreover have "clean_text t = t" by (simp add: t clean_text_idem)
  ultimately show ?thesis using len by (simp add: finish_content_def)
qed

lemma finish_content_clean:
  "finish_content bp s = Inr (Some t) \<Longrightarrow> t \<noteq> [] \<and> strip t = t \<and> single_spaced t \<and> 200 < length t"
proof -
  assume "finish_content bp s = Inr (Some t)"
  then obtain x where t: "t = clean_text x" and len: "200 < length t"
    by (auto simp: finish_content_def Let_def split: sum.splits if_splits)
  have "trimmed t" unfolding t clean_text_eq using trimmed_strip trimmed_re_sub_ws by blast
  then have "strip t = t" by (rule strip_trimmed_id)
  moreover have "single_spaced t" unfolding t clean_text_eq by (rule single_spaced_re_sub_ws)
  ultimately show ?thesis using len by auto
qed

lemma ETI_strip_paragraph:
  "ETNewsScraper_strip_element (Elem ''p'' [] None [Text NavigableString t])
   = Elem ''[document]'' [] None [Elem ''p'' [] None [Text NavigableString t]]"
  by (simp add: ETNewsScraper_strip_element_def ETNewsScraper_unwanted_classes_def
      ETNewsScraper_unwanted_ids_def reparse_def string_container_def)

lemma ETI_process_paragraph:
  "t \<noteq> [] \<Longrightarrow> strip t = t \<Longrightarrow>
   ETNewsScraper_process_content_element (Elem ''p'' [] None [Text NavigableString t])
     = finish_content ET_boilerplate_text t"
  by (simp add: ETNewsScraper_process_content_element_def ETI_strip_paragraph text_simps)

lemma ET_process_paragraph:
  "t \<noteq> [] \<Longrightarrow> strip t = t \<Longrightarrow>
   ArticleScraper_process_content_element (Elem ''p'' [] None [Text NavigableString t])
     = (case finish_content ET_boilerplate_text t of
          Inl e \<Rightarrow> Inl e | Inr c \<Rightarrow> Inr (c, Elem ''p'' [] None [Text NavigableString t]))"
  by (simp add: ArticleScraper_process_content_element_def text_simps
      ArticleScraper_unwanted_def ArticleScraper_listed_def)

lemma ETI_process_finish:
  "ETNewsScraper_process_content_element el = Inr (Some t) \<Longrightarrow>
   \<exists>s. finish_content ET_boilerplate_text s = Inr (Some t)"
  by (auto simp: ETNewsScraper_process_content_element_def)

lemma ET_process_finish:
  "ArticleScraper_process_content_element el = Inr (Some t, el') \<Longrightarrow>
   \<exists>s. finish_content ET_boilerplate_text s = Inr (Some t)"
  by (auto simp: ArticleScraper_process_content_element_def split: sum.splits)

lemma z201_facts: "z201 \<noteq> []" "strip z201 = z201" "length z201 = 201"
  "finish_content ET_boilerplate_text z201 = Inr (Some z201)"
proof -
  have p: "\<forall>c\<in>set z201. \<not> isspace c" by (simp add: z201_def isspace_def)
  show l: "length z201 = 201" by (simp add: z201_def)
  then show "z201 \<noteq> []" by auto
  show "strip z201 = z201" using p by (rule strip_plain)
  show "finish_content ET_boilerplate_text z201 = Inr (Some z201)"
    using finish_content_plain[OF p ET_boilerplate_blank] l by simp
qed

lemma no_phrase_in_z201: "list_all (\<lambda>p. \<not> contains p z201) ET_boilerplate_text"
proof -
  have "\<forall>p\<in>set ET_boilerplate_text. \<not> contains p z201"
  proof
    fix p assume "p \<in> set ET_boilerplate_text"
    then have "CHR 0x20 \<in> set p" using ET_boilerplate_blank by blast
    moreover have "CHR 0x20 \<notin> set z201" by (simp add: z201_def)
    ultimately show "\<not> contains p z201" using contains_set by blast
  qed
  then show ?thesis by (simp add: list_all_iff)
qed

section \<open>Lemmas: searching a tree\<close>

lemma bs_find_list_ex: "(bs_find P soup \<noteq> None) = list_ex P (descendants soup)"
  by (auto simp: bs_find_def find_None_iff list_ex_iff)



lemma bs_find_holds: "bs_find P soup = Some el \<Longrightarrow> P el"
  by (auto simp: bs_find_def find_Some_iff)













section \<open>Lemmas: the sanitizers and the steps of the locators\<close>

lemma ET_boilerplate_nonempty: "[] \<notin> set ET_boilerplate_text"
  by (simp add: ET_boilerplate_text_def)

lemma finish_content_eq:
  "remove_boilerplate bp x = Inr t \<Longrightarrow>
   finish_content bp x = Inr (if 200 < length (clean_text t) then Some (clean_text t) else None)"
  by (simp add: finish_content_def)

lemma finish_content_Some:
  "finish_content bp x = Inr (Some c) \<Longrightarrow>
   \<exists>t. remove_boilerplate bp x = Inr t \<and> c = clean_text t \<and> 200 < length c"
  by (auto simp: finish_content_def Let_def split: sum.splits if_splits)

lemma ETI_process_eq:
  "remove_boilerplate ET_boilerplate_text (get_text_sep_strip (ETNewsScraper_strip_element el)) = Inr t \<Longrightarrow>
   ETNewsScraper_process_content_element el
     = Inr (if 200 < length (clean_text t) then Some (clean_text t) else None)"
  by (simp add: ETNewsScraper_process_content_element_def finish_content_eq)

lemma ETI_process_returns:
  "\<exists>t. remove_boilerplate ET_boilerplate_text (get_text_sep_strip (ETNewsScraper_strip_element el)) = Inr t"
  using remove_boilerplate_returns[OF ET_boilerplate_nonempty] by blast

lemma ET_process_eq:
  "decompose_unwanted el = Inr el' \<Longrightarrow>
   remove_boilerplate ET_boilerplate_text (get_text_sep_strip el') = Inr t \<Longrightarrow>
   ArticleScraper_process_content_element el
     = Inr (if 200 < length (clean_text t) then Some (clean_text t) else None, el')"
  by (simp add: ArticleScraper_process_content_element_def finish_content_eq)

lemma ET_process_raises:
  "decompose_unwanted el = Inl e \<Longrightarrow> ArticleScraper_process_content_element el = Inl e"
  by (simp add: ArticleScraper_process_content_element_def)

lemma ET_process_returns:
  "decompose_unwanted el = Inr el' \<Longrightarrow>
   \<exists>t. remove_boilerplate ET_boilerplate_text (get_text_sep_strip el') = Inr t"
  using remove_boilerplate_returns[OF ET_boilerplate_nonempty] by blast

lemma ETI_process_Some:
  "ETNewsScraper_process_content_element el = Inr (Some c) \<Longrightarrow>
   \<exists>t. remove_boilerplate ET_boilerplate_text (get_text_sep_strip (ETNewsScraper_strip_element el)) = Inr t \<and>
       c = clean_text t \<and> 200 < length c"
  unfolding ETNewsScraper_process_content_element_def by (rule finish_content_Some)

lemma ET_process_Inr:
  "ArticleScraper_process_content_element el = Inr (content, el') \<Longrightarrow>
   decompose_unwanted el = Inr el' \<and>
   (\<exists>t. remove_boilerplate ET_boilerplate_text (get_text_sep_strip el') = Inr t \<and>
        content = (if 200 < length (clean_text t) then Some (clean_text t) else None))"
  by (auto simp: ArticleScraper_process_content_element_def finish_content_def Let_def
      split: sum.splits)

lemma truthy_long: "truthy (if 200 < length c then Some c else None) = (200 < length c)"
  by auto

text \<open>One step of a selector loop.\<close>

lemma ETI_try_absent:
  "bs_find (sel name) soup = None \<Longrightarrow>
   ETNewsScraper_try_selectors sel tg (name # rest) soup = ETNewsScraper_try_selectors sel tg rest soup"
  by simp

lemma ETI_try_step:
  "bs_find (sel name) soup = Some el \<Longrightarrow>
   remove_boilerplate ET_boilerplate_text (get_text_sep_strip (ETNewsScraper_strip_element el)) = Inr t \<Longrightarrow>
   ETNewsScraper_try_selectors sel tg (name # rest) soup
     = (if 200 < length (clean_text t) then Inr (Some (clean_text t, tg @ name))
        else ETNewsScraper_try_selectors sel tg rest soup)"
  by (auto simp: ETI_process_eq)

lemma ET_try_absent:
  "bs_find (has_class name) soup = None \<Longrightarrow>
   ArticleScraper_try_selectors (name # rest) soup = ArticleScraper_try_selectors rest soup"
  by simp

lemma ET_try_step:
  "bs_find (has_class name) soup = Some el \<Longrightarrow> decompose_unwanted el = Inr el' \<Longrightarrow>
   remove_boilerplate ET_boilerplate_text (get_text_sep_strip el') = Inr t \<Longrightarrow>
   ArticleScraper_try_selectors (name # rest) soup
     = (if 200 < length (clean_text t)
        then Inr (Some (clean_text t, ''class: '' @ name), replace_first (has_class name) el' soup)
        else ArticleScraper_try_selectors rest (replace_first (has_class name) el' soup))"
  by (auto simp: ET_process_eq Let_def)

lemma ET_try_raises:
  "bs_find (has_class name) soup = Some el \<Longrightarrow> decompose_unwanted el = Inl e \<Longrightarrow>
   ArticleScraper_try_selectors (name # rest) soup = Inl e"
  by (simp add: ET_process_raises)

text \<open>The article step.\<close>

lemma ETI_article_absent:
  "bs_find (has_tag ''article'') soup = None \<Longrightarrow>
   ETNewsScraper_extract_article_content soup
     = (case ETNewsScraper_try_selectors has_class ''class: '' ETNewsScraper_content_selectors soup of
          Inl e \<Rightarrow> Inl e
        | Inr (Some r) \<Rightarrow> Inr (Some r)
        | Inr None \<Rightarrow>
            (case ETNewsScraper_try_selectors has_id ''id: '' ETNewsScraper_id_selectors soup of
               Inl e \<Rightarrow> Inl e
             | Inr (Some r) \<Rightarrow> Inr (Some r)
             | Inr None \<Rightarrow> Inr (paragraphs_in_main_content soup)))"
  by (simp add: ETNewsScraper_extract_article_content_def)

lemma ETI_article_step:
  "bs_find (has_tag ''article'') soup = Some el \<Longrightarrow>
   remove_boilerplate ET_boilerplate_text (get_text_sep_strip (ETNewsScraper_strip_element el)) = Inr t \<Longrightarrow>
   ETNewsScraper_extract_article_content soup
     = (if 200 < length (clean_text t) then Inr (Some (clean_text t, ''article tag''))
        else (case ETNewsScraper_try_selectors has_class ''class: '' ETNewsScraper_content_selectors soup of
          Inl e \<Rightarrow> Inl e
        | Inr (Some r) \<Rightarrow> Inr (Some r)
        | Inr None \<Rightarrow>
            (case ETNewsScraper_try_selectors has_id ''id: '' ETNewsScraper_id_selectors soup of
               Inl e \<Rightarrow> Inl e
             | Inr (Some r) \<Rightarrow> Inr (Some r)
             | Inr None \<Rightarrow> Inr (paragraphs_in_main_content soup))))"
  by (auto simp: ETNewsScraper_extract_article_content_def ETI_process_eq)

lemma ET_article_absent:
  "bs_find (has_tag ''article'') soup = None \<Longrightarrow>
   ArticleScraper_extract_article_content soup
     = ArticleScraper_try_selectors ArticleScraper_content_selectors soup"
  by (simp add: ArticleScraper_extract_article_content_def)

lemma ET_article_step:
  "bs_find (has_tag ''article'') soup = Some el \<Longrightarrow> decompose_unwanted el = Inr el' \<Longrightarrow>
   remove_boilerplate ET_boilerplate_text (get_text_sep_strip el') = Inr t \<Longrightarrow>
   ArticleScraper_extract_article_content soup
     = (if 200 < length (clean_text t)
        then Inr (Some (clean_text t, ''article tag''), replace_first (has_tag ''article'') el' soup)
        else ArticleScraper_try_selectors ArticleScraper_content_selectors
               (replace_first (has_tag ''article'') el' soup))"
  by (auto simp: ArticleScraper_extract_article_content_def ET_process_eq Let_def)

text \<open>The paragraph step.\<close>

lemma paragraphs_step:
  "bs_find (\<lambda>n. has_tag ''div'' n \<and>
                 class_matches (\<lambda>c. contains ''article'' c \<or> contains ''story'' c \<or>
                                     contains ''content'' c) n) soup = Some main_content \<Longrightarrow>
   content = join_sp (filter (\<lambda>s. s \<noteq> [])
                        (map (\<lambda>p. strip (get_text p)) (bs_find_all (has_tag ''p'') main_content))) \<Longrightarrow>
   paragraphs_in_main_content soup
     = (if 200 < length content then Some (content, ''paragraphs in main content'') else None)"
  by (auto simp: paragraphs_in_main_content_def Let_def)
text \<open>What a returned text went through.\<close>

lemma ETI_try_sound:
  "ETNewsScraper_try_selectors sel tg names soup = Inr (Some (c, m)) \<Longrightarrow>
   \<exists>name el t. name \<in> set names \<and> m = tg @ name \<and> bs_find (sel name) soup = Some el \<and>
      remove_boilerplate ET_boilerplate_text (get_text_sep_strip (ETNewsScraper_strip_element el)) = Inr t \<and>
      c = clean_text t \<and> 200 < length c"
proof (induction names)
  case Nil
  then show ?case by simp
next
  case (Cons name names)
  show ?case
  proof (cases "bs_find (sel name) soup")
    case None
    with Cons show ?thesis by auto
  next
    case (Some el)
    from ETI_process_returns obtain t where
      t: "remove_boilerplate ET_boilerplate_text (get_text_sep_strip (ETNewsScraper_strip_element el)) = Inr t"
      by blast
    show ?thesis
    proof (cases "200 < length (clean_text t)")
      case True
      with Cons.prems have "c = clean_text t" "m = tg @ name"
        unfolding ETI_try_step[where sel=sel and name=name, OF Some t] by simp_all
      with Some t True show ?thesis by auto
    next
      case False
      with Cons.prems have "ETNewsScraper_try_selectors sel tg names soup = Inr (Some (c, m))"
        unfolding ETI_try_step[where sel=sel and name=name, OF Some t] by simp
      from Cons.IH[OF this] show ?thesis by auto
    qed
  qed
qed

lemma paragraphs_method:
  "paragraphs_in_main_content soup = Some (c, m) \<Longrightarrow> m = ''paragraphs in main content''"
  by (auto simp: paragraphs_in_main_content_def Let_def split: option.splits if_splits)

lemma ETI_extract_sound:
  assumes "ETNewsScraper_extract_article_content soup = Inr (Some (c, m))"
  shows "(\<exists>el t. m = ''article tag'' \<and> bs_find (has_tag ''article'') soup = Some el \<and>
            remove_boilerplate ET_boilerplate_text
              (get_text_sep_strip (ETNewsScraper_strip_element el)) = Inr t \<and>
            c = clean_text t \<and> 200 < length c) \<or>
         (\<exists>name el t. name \<in> set ETNewsScraper_content_selectors \<and> m = ''class: '' @ name \<and>
            bs_find (has_class name) soup = Some el \<and>
            remove_boilerplate ET_boilerplate_text
              (get_text_sep_strip (ETNewsScraper_strip_element el)) = Inr t \<and>
            c = clean_text t \<and> 200 < length c) \<or>
         (\<exists>name el t. name \<in> set ETNewsScraper_id_selectors \<and> m = ''id: '' @ name \<and>
            bs_find (has_id name) soup = Some el \<and>
            remove_boilerplate ET_boilerplate_text
              (get_text_sep_strip (ETNewsScraper_strip_element el)) = Inr t \<and>
            c = clean_text t \<and> 200 < length c) \<or>
         (m = ''paragraphs in main content'' \<and> paragraphs_in_main_content soup = Some (c, m))"
proof -
  let ?rest = "case ETNewsScraper_try_selectors has_class ''class: '' ETNewsScraper_content_selectors soup of
          Inl e \<Rightarrow> Inl e
        | Inr (Some r) \<Rightarrow> Inr (Some r)
        | Inr None \<Rightarrow>
            (case ETNewsScraper_try_selectors has_id ''id: '' ETNewsScraper_id_selectors soup of
               Inl e \<Rightarrow> Inl e
             | Inr (Some r) \<Rightarrow> Inr (Some r)
             | Inr None \<Rightarrow> Inr (paragraphs_in_main_content soup))"
  have rest: "?rest = Inr (Some (c, m)) \<Longrightarrow>
     ETNewsScraper_try_selectors has_class ''class: '' ETNewsScraper_content_selectors soup = Inr (Some (c, m)) \<or>
     ETNewsScraper_try_selectors has_id ''id: '' ETNewsScraper_id_selectors soup = Inr (Some (c, m)) \<or>
     paragraphs_in_main_content soup = Some (c, m)"
    by (auto split: sum.splits option.splits)
  have fromrest: ?thesis if "?rest = Inr (Some (c, m))"
    using rest[OF that] ETI_try_sound[of has_class "''class: ''" ETNewsScraper_content_selectors soup c m]
      ETI_try_sound[of has_id "''id: ''" ETNewsScraper_id_selectors soup c m] paragraphs_method[of soup c m]
    by blast
  show ?thesis
  proof (cases "bs_find (has_tag ''article'') soup")
    case None
    from assms[unfolded ETI_article_absent[OF None]] show ?thesis by (rule fromrest)
  next
    case (Some el)
    from ETI_process_returns obtain t where
      t: "remove_boilerplate ET_boilerplate_text (get_text_sep_strip (ETNewsScraper_strip_element el)) = Inr t"
      by blast
    show ?thesis
    proof (cases "200 < length (clean_text t)")
      case True
      with assms have "c = clean_text t" "m = ''article tag''"
        unfolding ETI_article_step[OF Some t] by simp_all
      with Some t True show ?thesis by blast
    next
      case False
      with assms have "?rest = Inr (Some (c, m))"
        unfolding ETI_article_step[OF Some t] by simp
      then show ?thesis by (rule fromrest)
    qed
  qed
qed

lemma page_before_Cons:
  "page_before (P # steps) soup = page_before steps (ArticleScraper_rejected P soup)"
  by (simp add: page_before_def)

lemma rejected_absent: "bs_find P soup = None \<Longrightarrow> ArticleScraper_rejected P soup = soup"
  by (simp add: ArticleScraper_rejected_def)

lemma rejected_pruned:
  "bs_find P soup = Some el \<Longrightarrow> decompose_unwanted el = Inr el' \<Longrightarrow>
   ArticleScraper_rejected P soup = replace_first P el' soup"
  by (simp add: ArticleScraper_rejected_def)

lemma ET_try_sound:
  "ArticleScraper_try_selectors names soup = Inr (Some (c, m), soup') \<Longrightarrow>
   \<exists>pre name post el el' t. names = pre @ name # post \<and> m = ''class: '' @ name \<and>
      bs_find (has_class name) (page_before (map has_class pre) soup) = Some el \<and>
      decompose_unwanted el = Inr el' \<and>
      remove_boilerplate ET_boilerplate_text (get_text_sep_strip el') = Inr t \<and>
      c = clean_text t \<and> 200 < length c \<and>
      soup' = replace_first (has_class name) el' (page_before (map has_class pre) soup)"
proof (induction names arbitrary: soup)
  case Nil
  then show ?case by simp
next
  case (Cons name names)
  show ?case
  proof (cases "bs_find (has_class name) soup")
    case None
    with Cons.prems have "ArticleScraper_try_selectors names soup = Inr (Some (c, m), soup')" by simp
    from Cons.IH[OF this] obtain pre n post el el' t where
      h: "names = pre @ n # post" "m = ''class: '' @ n"
         "bs_find (has_class n) (page_before (map has_class pre) soup) = Some el"
         "decompose_unwanted el = Inr el'"
         "remove_boilerplate ET_boilerplate_text (get_text_sep_strip el') = Inr t"
         "c = clean_text t" "200 < length c"
         "soup' = replace_first (has_class n) el' (page_before (map has_class pre) soup)"
      by blast
    have pb: "page_before (map has_class (name # pre)) soup = page_before (map has_class pre) soup"
      by (simp add: page_before_Cons rejected_absent[OF None])
    have "name # names = (name # pre) @ n # post" using h(1) by simp
    with h pb show ?thesis by metis
  next
    case (Some el)
    show ?thesis
    proof (cases "decompose_unwanted el")
      case (Inl e)
      from Cons.prems[unfolded ET_try_raises[OF Some Inl]] show ?thesis by simp
    next
      case (Inr el')
      from ET_process_returns[OF Inr] obtain t where
        t: "remove_boilerplate ET_boilerplate_text (get_text_sep_strip el') = Inr t" by blast
      show ?thesis
      proof (cases "200 < length (clean_text t)")
        case True
        with Cons.prems have "c = clean_text t" "m = ''class: '' @ name"
          "soup' = replace_first (has_class name) el' soup"
          unfolding ET_try_step[OF Some Inr t] by simp_all
        moreover have "page_before (map has_class []) soup = soup" by (simp add: page_before_def)
        moreover have "name # names = [] @ name # names" by simp
        ultimately show ?thesis using Some Inr t True by metis
      next
        case False
        let ?s = "replace_first (has_class name) el' soup"
        from False Cons.prems have "ArticleScraper_try_selectors names ?s = Inr (Some (c, m), soup')"
          unfolding ET_try_step[OF Some Inr t] by simp
        from Cons.IH[OF this] obtain pre n post el2 el2' t2 where
          h: "names = pre @ n # post" "m = ''class: '' @ n"
             "bs_find (has_class n) (page_before (map has_class pre) ?s) = Some el2"
             "decompose_unwanted el2 = Inr el2'"
             "remove_boilerplate ET_boilerplate_text (get_text_sep_strip el2') = Inr t2"
             "c = clean_text t2" "200 < length c"
             "soup' = replace_first (has_class n) el2' (page_before (map has_class pre) ?s)"
          by blast
        have pb: "page_before (map has_class (name # pre)) soup = page_before (map has_class pre) ?s"
          by (simp add: page_before_Cons rejected_pruned[OF Some Inr])
        have "name # names = (name # pre) @ n # post" using h(1) by simp
        with h pb show ?thesis by metis
      qed
    qed
  qed
qed

lemma ET_article_raises:
  "bs_find (has_tag ''article'') soup = Some el \<Longrightarrow> decompose_unwanted el = Inl e \<Longrightarrow>
   ArticleScraper_extract_article_content soup = Inl e"
  by (simp add: ArticleScraper_extract_article_content_def ET_process_raises)

lemma ET_extract_sound:
  assumes "ArticleScraper_extract_article_content soup = Inr (Some (c, m), soup')"
  shows "(\<exists>el el' t. m = ''article tag'' \<and> bs_find (has_tag ''article'') soup = Some el \<and>
            decompose_unwanted el = Inr el' \<and>
            remove_boilerplate ET_boilerplate_text (get_text_sep_strip el') = Inr t \<and>
            c = clean_text t \<and> 200 < length c \<and>
            soup' = replace_first (has_tag ''article'') el' soup) \<or>
         (\<exists>pre name post el el' t.
            ArticleScraper_content_selectors = pre @ name # post \<and> m = ''class: '' @ name \<and>
            bs_find (has_class name)
              (page_before (has_tag ''article'' # map has_class pre) soup) = Some el \<and>
            decompose_unwanted el = Inr el' \<and>
            remove_boilerplate ET_boilerplate_text (get_text_sep_strip el') = Inr t \<and>
            c = clean_text t \<and> 200 < length c \<and>
            soup' = replace_first (has_class name) el'
                      (page_before (has_tag ''article'' # map has_class pre) soup))"
proof -
  have fromrest: ?thesis
    if "ArticleScraper_try_selectors ArticleScraper_content_selectors
          (ArticleScraper_rejected (has_tag ''article'') soup) = Inr (Some (c, m), soup')"
    using ET_try_sound[OF that] unfolding page_before_Cons by blast
  show ?thesis
  proof (cases "bs_find (has_tag ''article'') soup")
    case None
    from assms show ?thesis
      unfolding ET_article_absent[OF None] using fromrest rejected_absent[OF None] by simp
  next
    case (Some el)
    show ?thesis
    proof (cases "decompose_unwanted el")
      case (Inl e)
      from assms[unfolded ET_article_raises[OF Some Inl]] show ?thesis by simp
    next
      case (Inr el')
      from ET_process_returns[OF Inr] obtain t where
        t: "remove_boilerplate ET_boilerplate_text (get_text_sep_strip el') = Inr t" by blast
      show ?thesis
      proof (cases "200 < length (clean_text t)")
        case True
        with assms have "c = clean_text t" "m = ''article tag''"
          "soup' = replace_first (has_tag ''article'') el' soup"
          unfolding ET_article_step[OF Some Inr t] by simp_all
        with Some Inr t True show ?thesis by blast
      next
        case False
        with assms show ?thesis
          unfolding ET_article_step[OF Some Inr t] using fromrest rejected_pruned[OF Some Inr] by simp
      qed
    qed
  qed
qed
section \<open>Lemmas: pruning\<close>

lemma root_remove_all: "root (remove_all Q x) = root x"
  by (cases x) simp_all

lemma root_remove_first: "root (remove_first Q x) = root x"
  by (cases x) simp_all

lemma root_replace_first: "root (replace_first Q new x) = root x"
  by (cases x) simp_all

lemma descendants_remove_all:
  "n \<in> set (descendants (remove_all Q x)) \<Longrightarrow>
   \<exists>d\<in>set (descendants x). \<not> Q d \<and> n = remove_all Q d"
proof (induction x arbitrary: n)
  case (Text k s)
  then show ?case by simp
next
  case (Elem t cs i ch)
  from Elem.prems obtain c where c: "c \<in> set ch" "\<not> Q c"
    and n: "n = remove_all Q c \<or> n \<in> set (descendants (remove_all Q c))"
    by auto
  from n show ?case
  proof
    assume "n = remove_all Q c"
    with c show ?thesis by auto
  next
    assume "n \<in> set (descendants (remove_all Q c))"
    from Elem.IH[OF c(1) this] obtain d where "d \<in> set (descendants c)" "\<not> Q d" "n = remove_all Q d"
      by blast
    with c show ?thesis by auto
  qed
qed

lemma remove_all_clean:
  assumes "\<And>n. P n = P (root n)" and "n \<in> set (descendants (remove_all P x))"
  shows "\<not> P n"
proof -
  from descendants_remove_all[OF assms(2)] obtain d where "\<not> P d" "n = remove_all P d" by blast
  then show ?thesis using assms(1)[of n] assms(1)[of d] by (simp add: root_remove_all)
qed

lemma remove_all_keeps_clean:
  assumes "\<And>n. P n = P (root n)" and "\<forall>n\<in>set (descendants x). \<not> P n"
    and "n \<in> set (descendants (remove_all Q x))"
  shows "\<not> P n"
proof -
  from descendants_remove_all[OF assms(3)] obtain d where "d \<in> set (descendants x)" "n = remove_all Q d"
    by blast
  then show ?thesis using assms(1)[of n] assms(1)[of d] assms(2) by (simp add: root_remove_all)
qed

lemma descendants_remove_first:
  "n \<in> set (descendants (remove_first Q x)) \<Longrightarrow> \<exists>d\<in>set (descendants x). root n = root d"
  "n \<in> set (concat (map (\<lambda>m. m # descendants m) (remove_first_list Q ns))) \<Longrightarrow>
   \<exists>d\<in>set (concat (map (\<lambda>m. m # descendants m) ns)). root n = root d"
proof (induction Q x and Q ns arbitrary: n and n rule: remove_first_remove_first_list.induct)
  case (1 P k s)
  then show ?case by simp
next
  case (2 P t cs i ch)
  then show ?case by simp
next
  case (3 P)
  then show ?case by simp
next
  case (4 P m ms)
  show ?case
  proof (cases "P m")
    case True
    with "4.prems" show ?thesis by auto
  next
    case False
    show ?thesis
    proof (cases "list_ex P (descendants m)")
      case True
      with False "4.prems" have
        "n = remove_first P m \<or> n \<in> set (descendants (remove_first P m)) \<or>
         n \<in> set (concat (map (\<lambda>m. m # descendants m) ms))" by auto
      then show ?thesis
      proof (elim disjE)
        assume "n = remove_first P m"
        then have "root n = root m" by (simp add: root_remove_first)
        then show ?thesis by auto
      next
        assume "n \<in> set (descendants (remove_first P m))"
        from "4.IH"(1)[OF False True this] show ?thesis by auto
      next
        assume "n \<in> set (concat (map (\<lambda>m. m # descendants m) ms))"
        then show ?thesis by auto
      qed
    next
      case nex: False
      with False "4.prems" have
        "n = m \<or> n \<in> set (descendants m) \<or>
         n \<in> set (concat (map (\<lambda>m. m # descendants m) (remove_first_list P ms)))" by auto
      then show ?thesis
      proof (elim disjE)
        assume "n = m" then show ?thesis by auto
      next
        assume "n \<in> set (descendants m)" then show ?thesis by auto
      next
        assume "n \<in> set (concat (map (\<lambda>m. m # descendants m) (remove_first_list P ms)))"
        from "4.IH"(2)[OF False nex this] show ?thesis by auto
      qed
    qed
  qed
qed

lemma remove_first_keeps_clean:
  assumes "\<And>n. P n = P (root n)" and "\<forall>n\<in>set (descendants x). \<not> P n"
    and "n \<in> set (descendants (remove_first Q x))"
  shows "\<not> P n"
proof -
  from descendants_remove_first(1)[OF assms(3)] obtain d where "d \<in> set (descendants x)" "root n = root d"
    by blast
  then show ?thesis using assms(1)[of n] assms(1)[of d] assms(2) by simp
qed

lemma foldl_remove_all_clean:
  assumes "\<And>u n. P u n = P u (root n)"
  shows "\<forall>u\<in>set us. \<forall>n\<in>set (descendants (foldl (\<lambda>c u. remove_all (P u) c) x us)). \<not> P u n"
proof (induction us rule: rev_induct)
  case Nil
  then show ?case by simp
next
  case (snoc u us)
  show ?case
  proof (intro ballI)
    fix v n
    assume v: "v \<in> set (us @ [u])"
      and n: "n \<in> set (descendants (foldl (\<lambda>c u. remove_all (P u) c) x (us @ [u])))"
    let ?y = "foldl (\<lambda>c u. remove_all (P u) c) x us"
    from n have n': "n \<in> set (descendants (remove_all (P u) ?y))" by simp
    show "\<not> P v n"
    proof (cases "v = u")
      case True
      with remove_all_clean[of "P u", OF assms n'] show ?thesis by simp
    next
      case False
      with v have "v \<in> set us" by simp
      with snoc have "\<forall>n\<in>set (descendants ?y). \<not> P v n" by blast
      from remove_all_keeps_clean[of "P v", OF assms this n'] show ?thesis .
    qed
  qed
qed

lemma foldl_remove_first_keeps_clean:
  assumes "\<And>n. P n = P (root n)" and "\<forall>n\<in>set (descendants x). \<not> P n"
  shows "\<forall>n\<in>set (descendants (foldl (\<lambda>c u. remove_first (Q u) c) x us)). \<not> P n"
proof (induction us rule: rev_induct)
  case Nil
  then show ?case using assms(2) by simp
next
  case (snoc u us)
  show ?case
  proof
    fix n assume "n \<in> set (descendants (foldl (\<lambda>c u. remove_first (Q u) c) x (us @ [u])))"
    then have "n \<in> set (descendants (remove_first (Q u) (foldl (\<lambda>c u. remove_first (Q u) c) x us)))"
      by simp
    from remove_first_keeps_clean[of P, OF assms(1) snoc this] show "\<not> P n" .
  qed
qed

lemma class_matches_root: "class_matches f n = class_matches f (root n)"
  by (cases n) simp_all

lemma has_tag_in_root: "has_tag_in names n = has_tag_in names (root n)"
  by (cases n) simp_all

lemma has_tag_root: "has_tag name n = has_tag name (root n)"
  by (cases n) simp_all

lemma has_class_root: "has_class name n = has_class name (root n)"
  by (cases n) simp_all

lemma ETI_strip_clean:
  assumes "n \<in> set (descendants (ETNewsScraper_strip_element el))"
  shows "\<not> has_tag_in [''script'', ''style'', ''noscript'', ''iframe'', ''form''] n \<and>
         (\<forall>u\<in>set ETNewsScraper_unwanted_classes. \<not> class_matches (contains u) n)"
proof -
  let ?T = "has_tag_in [''script'', ''style'', ''noscript'', ''iframe'', ''form'']"
  let ?c1 = "foldl (\<lambda>copy unwanted_class. remove_all (class_matches (contains unwanted_class)) copy)
               (reparse el) ETNewsScraper_unwanted_classes"
  let ?c2 = "remove_all ?T ?c1"
  have s: "ETNewsScraper_strip_element el
        = foldl (\<lambda>copy unwanted_id. remove_first (has_id unwanted_id) copy) ?c2 ETNewsScraper_unwanted_ids"
    by (simp add: ETNewsScraper_strip_element_def Let_def)
  have c1: "\<forall>u\<in>set ETNewsScraper_unwanted_classes. \<forall>n\<in>set (descendants ?c1). \<not> class_matches (contains u) n"
    by (rule foldl_remove_all_clean[where P="\<lambda>u. class_matches (contains u)"]) (rule class_matches_root)
  have t2: "\<forall>n\<in>set (descendants ?c2). \<not> ?T n"
    using remove_all_clean[of ?T _ ?c1] has_tag_in_root by blast
  have c2: "\<forall>n\<in>set (descendants ?c2). \<not> class_matches (contains u) n"
    if "u \<in> set ETNewsScraper_unwanted_classes" for u
    using remove_all_keeps_clean[of "class_matches (contains u)" ?c1 _ ?T] class_matches_root c1 that
    by blast
  have t3: "\<not> ?T n"
    using foldl_remove_first_keeps_clean[of ?T ?c2 has_id ETNewsScraper_unwanted_ids]
      has_tag_in_root t2 assms unfolding s by blast
  have c3: "\<not> class_matches (contains u) n" if "u \<in> set ETNewsScraper_unwanted_classes" for u
    using foldl_remove_first_keeps_clean[of "class_matches (contains u)" ?c2 has_id ETNewsScraper_unwanted_ids]
      class_matches_root c2[OF that] assms unfolding s by blast
  from t3 c3 show ?thesis by blast
qed
lemma decompose_unwanted_remove_all:
  "decompose_unwanted x = Inr x' \<Longrightarrow> x' = remove_all ArticleScraper_unwanted x"
  "decompose_unwanted_list ns = Inr ns' \<Longrightarrow>
   ns' = map (remove_all ArticleScraper_unwanted) (filter (\<lambda>n. \<not> ArticleScraper_unwanted n) ns)"
proof (induction x and ns arbitrary: x' and ns' rule: decompose_unwanted_decompose_unwanted_list.induct)
  case (1 k s)
  then show ?case by auto
next
  case (2 t cs i ch)
  then show ?case by (auto split: sum.splits)
next
  case 3
  then show ?case by simp
next
  case (4 n ns)
  show ?case
  proof (cases "ArticleScraper_unwanted n")
    case True
    with "4.prems" have "\<not> list_ex ArticleScraper_listed (descendants n)"
      and "decompose_unwanted_list ns = Inr ns'" by (auto split: if_splits)
    with "4.IH"(1)[OF True] True show ?thesis by simp
  next
    case False
    with "4.prems" obtain n' ns2 where n': "decompose_unwanted n = Inr n'"
      and ns2: "decompose_unwanted_list ns = Inr ns2" and e: "ns' = n' # ns2"
      by (auto split: sum.splits)
    from "4.IH"(2)[OF False n'] "4.IH"(3)[OF False n' ns2] e False show ?thesis by simp
  qed
qed

lemma ET_unwanted_root: "ArticleScraper_unwanted n = ArticleScraper_unwanted (root n)"
  by (cases n) (simp_all add: ArticleScraper_unwanted_def ArticleScraper_listed_def)

lemma decompose_unwanted_clean:
  assumes "decompose_unwanted el = Inr el'" and "n \<in> set (descendants el')"
  shows "\<not> ArticleScraper_unwanted n"
  using remove_all_clean[of ArticleScraper_unwanted n el] ET_unwanted_root
    assms(2)[unfolded decompose_unwanted_remove_all(1)[OF assms(1)]]
  by blast

lemma decompose_unwanted_root: "decompose_unwanted el = Inr el' \<Longrightarrow> root el' = root el"
  using decompose_unwanted_remove_all(1)[of el el'] by (simp add: root_remove_all)

lemma decompose_unwanted_id:
  "\<forall>n\<in>set (descendants x). \<not> ArticleScraper_unwanted n \<Longrightarrow> decompose_unwanted x = Inr x"
  "\<forall>n\<in>set (concat (map (\<lambda>m. m # descendants m) ns)). \<not> ArticleScraper_unwanted n \<Longrightarrow>
   decompose_unwanted_list ns = Inr ns"
proof (induction x and ns rule: decompose_unwanted_decompose_unwanted_list.induct)
  case (1 k s)
  then show ?case by simp
next
  case (2 t cs i ch)
  then show ?case by simp
next
  case 3
  then show ?case by simp
next
  case (4 n ns)
  from "4.prems" have u: "\<not> ArticleScraper_unwanted n" by simp
  from "4.prems" have a: "\<forall>m\<in>set (descendants n). \<not> ArticleScraper_unwanted m"
    and b: "\<forall>m\<in>set (concat (map (\<lambda>m. m # descendants m) ns)). \<not> ArticleScraper_unwanted m"
    by auto
  from "4.IH"(2)[OF u a] have n: "decompose_unwanted n = Inr n" .
  from "4.IH"(3)[OF u n b] have ns: "decompose_unwanted_list ns = Inr ns" .
  from u n ns show ?case by simp
qed

lemma decompose_unwanted_idem:
  "decompose_unwanted el = Inr el' \<Longrightarrow> decompose_unwanted el' = Inr el'"
  using decompose_unwanted_id(1)[of el'] decompose_unwanted_clean[of el el'] by blast

lemma find_append_Some: "List.find P xs = Some y \<Longrightarrow> List.find P (xs @ ys) = Some y"
  by (induction xs) (auto split: if_splits)

lemma find_append_None: "List.find P xs = None \<Longrightarrow> List.find P (xs @ ys) = List.find P ys"
  by (induction xs) (auto split: if_splits)

lemma find_replace_first:
  "(\<And>n. P n = P (root n)) \<Longrightarrow> P new \<Longrightarrow> list_ex P (descendants x) \<Longrightarrow>
   List.find P (descendants (replace_first P new x)) = Some new"
  "(\<And>n. P n = P (root n)) \<Longrightarrow> P new \<Longrightarrow>
   list_ex P (concat (map (\<lambda>m. m # descendants m) ns)) \<Longrightarrow>
   List.find P (concat (map (\<lambda>m. m # descendants m) (replace_first_list P new ns))) = Some new"
proof (induction P new x and P new ns rule: replace_first_replace_first_list.induct)
  case (1 P new k s)
  then show ?case by simp
next
  case (2 P new t cs i ch)
  from "2.IH"[OF "2.prems"(1,2)] "2.prems"(3) show ?case by simp
next
  case (3 P new)
  then show ?case by simp
next
  case (4 P new n ns)
  note sh = "4.prems"(1) and new = "4.prems"(2)
  show ?case
  proof (cases "P n")
    case True
    with new show ?thesis by simp
  next
    case False
    show ?thesis
    proof (cases "list_ex P (descendants n)")
      case True
      have r: "\<not> P (replace_first P new n)"
        using False sh[of n] sh[of "replace_first P new n"] by (simp add: root_replace_first)
      from "4.IH"(1)[OF False True sh new True]
      have "List.find P (descendants (replace_first P new n)) = Some new" .
      then have "List.find P (descendants (replace_first P new n) @
                   concat (map (\<lambda>m. m # descendants m) ns)) = Some new"
        by (rule find_append_Some)
      with False True r show ?thesis by simp
    next
      case nex: False
      then have none: "List.find P (descendants n) = None"
        by (simp add: find_None_iff list_ex_iff)
      from "4.prems"(3) False nex have "list_ex P (concat (map (\<lambda>m. m # descendants m) ns))"
        by (auto simp: list_ex_iff)
      from "4.IH"(2)[OF False nex sh new this]
      have "List.find P (concat (map (\<lambda>m. m # descendants m) (replace_first_list P new ns))) = Some new" .
      with False nex find_append_None[OF none] show ?thesis by simp
    qed
  qed
qed

lemma bs_find_replace_first:
  "(\<And>n. P n = P (root n)) \<Longrightarrow> P new \<Longrightarrow> bs_find P soup = Some el \<Longrightarrow>
   bs_find P (replace_first P new soup) = Some new"
  using find_replace_first(1)[of P new soup] bs_find_list_ex[of P soup] by (simp add: bs_find_def)

lemma replace_first_idem:
  "(\<And>n. P n = P (root n)) \<Longrightarrow> P new \<Longrightarrow>
   replace_first P new (replace_first P new x) = replace_first P new x"
  "(\<And>n. P n = P (root n)) \<Longrightarrow> P new \<Longrightarrow>
   replace_first_list P new (replace_first_list P new ns) = replace_first_list P new ns"
proof (induction P new x and P new ns rule: replace_first_replace_first_list.induct)
  case (1 P new k s)
  then show ?case by simp
next
  case (2 P new t cs i ch)
  from "2.IH"[OF "2.prems"] show ?case by simp
next
  case (3 P new)
  then show ?case by simp
next
  case (4 P new n ns)
  note sh = "4.prems"(1) and new = "4.prems"(2)
  show ?case
  proof (cases "P n")
    case True
    with new show ?thesis by simp
  next
    case False
    show ?thesis
    proof (cases "list_ex P (descendants n)")
      case True
      have r: "\<not> P (replace_first P new n)"
        using False sh[of n] sh[of "replace_first P new n"] by (simp add: root_replace_first)
      from find_replace_first(1)[of P new n, OF sh new True]
      have ex: "list_ex P (descendants (replace_first P new n))"
        by (auto simp: list_ex_iff find_Some_iff) (metis nth_mem)
      from "4.IH"(1)[OF False True sh new] False True r ex show ?thesis by simp
    next
      case nex: False
      from "4.IH"(2)[OF False nex sh new] False nex show ?thesis by simp
    qed
  qed
qed

section \<open>Lemmas: the example pages of the cascade\<close>

lemma plain_facts:
  assumes "\<forall>c\<in>set s. \<not> isspace c"
  shows "strip s = s" "clean_text s = s" "remove_boilerplate ET_boilerplate_text s = Inr s"
    "finish_content ET_boilerplate_text s = Inr (if 200 < length s then Some s else None)"
proof -
  show "strip s = s" using assms by (rule strip_plain)
  show "clean_text s = s" using assms by (rule clean_text_plain)
  show f: "finish_content ET_boilerplate_text s = Inr (if 200 < length s then Some s else None)"
    using finish_content_plain[OF assms ET_boilerplate_blank] .
  have "\<forall>p\<in>set ET_boilerplate_text. \<not> contains p s"
  proof
    fix p assume "p \<in> set ET_boilerplate_text"
    with ET_boilerplate_blank have "CHR 0x20 \<in> set p" by blast
    moreover have "CHR 0x20 \<notin> set s" using assms isspace_blank by blast
    ultimately show "\<not> contains p s" using contains_set by blast
  qed
  then show "remove_boilerplate ET_boilerplate_text s = Inr s" by (rule remove_boilerplate_id)
qed

lemma z200_facts: "z200 \<noteq> []" "length z200 = 200" "\<forall>c\<in>set z200. \<not> isspace c"
  by (simp_all add: z200_def isspace_def)

lemma z201_plain: "\<forall>c\<in>set z201. \<not> isspace c"
  by (simp add: z201_def isspace_def)

lemma q250_facts: "q250 \<noteq> []" "length q250 = 250" "\<forall>c\<in>set q250. \<not> isspace c"
  by (simp_all add: q250_def isspace_def)

lemma ETI_strip_boxed_article:
  "ETNewsScraper_strip_element (Elem ''article'' [] None [Text NavigableString s])
   = Elem ''[document]'' [] None [Elem ''article'' [] None [Text NavigableString s]]"
  by (simp add: ETNewsScraper_strip_element_def ETNewsScraper_unwanted_classes_def
      ETNewsScraper_unwanted_ids_def reparse_def string_container_def)

lemma ETI_strip_boxed_class:
  "ETNewsScraper_strip_element (Elem ''div'' [''artText''] None [Text NavigableString s])
   = Elem ''[document]'' [] None [Elem ''div'' [''artText''] None [Text NavigableString s]]"
  by (simp add: ETNewsScraper_strip_element_def ETNewsScraper_unwanted_classes_def
      ETNewsScraper_unwanted_ids_def reparse_def string_container_def)

lemma ETI_strip_boxed_id:
  "ETNewsScraper_strip_element (Elem ''div'' [] (Some ''articleBody'') [Text NavigableString s])
   = Elem ''[document]'' [] None [Elem ''div'' [] (Some ''articleBody'') [Text NavigableString s]]"
  by (simp add: ETNewsScraper_strip_element_def ETNewsScraper_unwanted_classes_def
      ETNewsScraper_unwanted_ids_def reparse_def string_container_def)

lemma gts_document:
  "s \<noteq> [] \<Longrightarrow> strip s = s \<Longrightarrow>
   get_text_sep_strip (Elem ''[document]'' [] None [Elem t cs i [Text NavigableString s]]) = s"
  by (simp add: text_simps)

lemma ETI_extract_boxed_article:
  assumes "s \<noteq> []" "\<forall>c\<in>set s. \<not> isspace c"
  shows "ETNewsScraper_extract_article_content (boxed_page ''article'' [] None s)
         = Inr (if 200 < length s then Some (s, ''article tag'') else None)"
proof -
  let ?el = "Elem ''article'' [] None [Text NavigableString s]"
  have f: "bs_find (has_tag ''article'') (boxed_page ''article'' [] None s) = Some ?el"
    by (simp add: boxed_page_def soup_of_def bs_find_def)
  have t: "remove_boilerplate ET_boilerplate_text (get_text_sep_strip (ETNewsScraper_strip_element ?el)) = Inr s"
    using assms by (simp add: ETI_strip_boxed_article gts_document plain_facts)
  show ?thesis
    unfolding ETI_article_step[OF f t]
    using assms
    by (simp add: plain_facts boxed_page_def soup_of_def bs_find_def bs_find_all_def
        ETNewsScraper_content_selectors_def ETNewsScraper_id_selectors_def
        paragraphs_in_main_content_def)
qed

lemma ETI_extract_boxed_class:
  assumes "s \<noteq> []" "\<forall>c\<in>set s. \<not> isspace c"
  shows "ETNewsScraper_extract_article_content (boxed_page ''div'' [''artText''] None s)
         = Inr (if 200 < length s then Some (s, ''class: artText'') else None)"
proof -
  let ?el = "Elem ''div'' [''artText''] None [Text NavigableString s]"
  let ?soup = "boxed_page ''div'' [''artText''] None s"
  have a: "bs_find (has_tag ''article'') ?soup = None"
    by (simp add: boxed_page_def soup_of_def bs_find_def)
  have f: "bs_find (has_class ''artText'') ?soup = Some ?el"
    by (simp add: boxed_page_def soup_of_def bs_find_def)
  have t: "remove_boilerplate ET_boilerplate_text (get_text_sep_strip (ETNewsScraper_strip_element ?el)) = Inr s"
    using assms by (simp add: ETI_strip_boxed_class gts_document plain_facts)
  have r: "ETNewsScraper_try_selectors has_class ''class: ''
             [''article_wrap'', ''article-content'', ''story-details'', ''article_content'',
              ''article-text'', ''story-content'', ''story-body'', ''articleBody'', ''article-body''] ?soup
           = Inr None"
    by (simp add: boxed_page_def soup_of_def bs_find_def)
  have i: "ETNewsScraper_try_selectors has_id ''id: '' ETNewsScraper_id_selectors ?soup = Inr None"
    by (simp add: ETNewsScraper_id_selectors_def boxed_page_def soup_of_def bs_find_def)
  have p: "paragraphs_in_main_content ?soup = None"
    by (simp add: paragraphs_in_main_content_def boxed_page_def soup_of_def bs_find_def)
  have c: "ETNewsScraper_try_selectors has_class ''class: '' ETNewsScraper_content_selectors ?soup
           = (if 200 < length s then Inr (Some (s, ''class: artText'')) else Inr None)"
    unfolding ETNewsScraper_content_selectors_def ETI_try_step[where sel=has_class, OF f t] r
    using assms by (simp add: plain_facts)
  show ?thesis unfolding ETI_article_absent[OF a] c by (simp add: i p)
qed

lemma ETI_extract_boxed_id:
  assumes "s \<noteq> []" "\<forall>c\<in>set s. \<not> isspace c"
  shows "ETNewsScraper_extract_article_content (boxed_page ''div'' [] (Some ''articleBody'') s)
         = Inr (if 200 < length s then Some (s, ''id: articleBody'') else None)"
proof -
  let ?el = "Elem ''div'' [] (Some ''articleBody'') [Text NavigableString s]"
  let ?soup = "boxed_page ''div'' [] (Some ''articleBody'') s"
  have a: "bs_find (has_tag ''article'') ?soup = None"
    by (simp add: boxed_page_def soup_of_def bs_find_def)
  have f: "bs_find (has_id ''articleBody'') ?soup = Some ?el"
    by (simp add: boxed_page_def soup_of_def bs_find_def)
  have t: "remove_boilerplate ET_boilerplate_text (get_text_sep_strip (ETNewsScraper_strip_element ?el)) = Inr s"
    using assms by (simp add: ETI_strip_boxed_id gts_document plain_facts)
  have c: "ETNewsScraper_try_selectors has_class ''class: '' ETNewsScraper_content_selectors ?soup = Inr None"
    by (simp add: ETNewsScraper_content_selectors_def boxed_page_def soup_of_def bs_find_def)
  have r: "ETNewsScraper_try_selectors has_id ''id: '' [''article-body'', ''story-content'', ''story-body''] ?soup
           = Inr None"
    by (simp add: boxed_page_def soup_of_def bs_find_def)
  have p: "paragraphs_in_main_content ?soup = None"
    by (simp add: paragraphs_in_main_content_def boxed_page_def soup_of_def bs_find_def)
  have i: "ETNewsScraper_try_selectors has_id ''id: '' ETNewsScraper_id_selectors ?soup
           = (if 200 < length s then Inr (Some (s, ''id: articleBody'')) else Inr None)"
    unfolding ETNewsScraper_id_selectors_def ETI_try_step[where sel=has_id, OF f t] r
    using assms by (simp add: plain_facts)
  show ?thesis unfolding ETI_article_absent[OF a] c i by (simp add: p)
qed

lemma ETI_extract_paragraphs:
  assumes "s \<noteq> []" "\<forall>c\<in>set s. \<not> isspace c"
  shows "ETNewsScraper_extract_article_content (paragraphs_page s)
         = Inr (if 200 < length s then Some (s, ''paragraphs in main content'') else None)"
proof -
  let ?soup = "paragraphs_page s"
  have a: "bs_find (has_tag ''article'') ?soup = None"
    by (simp add: paragraphs_page_def soup_of_def bs_find_def)
  have c: "ETNewsScraper_try_selectors has_class ''class: '' ETNewsScraper_content_selectors ?soup = Inr None"
    by (simp add: ETNewsScraper_content_selectors_def paragraphs_page_def soup_of_def bs_find_def)
  have i: "ETNewsScraper_try_selectors has_id ''id: '' ETNewsScraper_id_selectors ?soup = Inr None"
    by (simp add: ETNewsScraper_id_selectors_def paragraphs_page_def soup_of_def bs_find_def)
  have p: "paragraphs_in_main_content ?soup
           = (if 200 < length s then Some (s, ''paragraphs in main content'') else None)"
    using assms
    by (simp add: paragraphs_in_main_content_def paragraphs_page_def soup_of_def bs_find_def
        bs_find_all_def text_simps plain_facts)
  show ?thesis unfolding ETI_article_absent[OF a] c i by (simp add: p)
qed

lemma ET_extract_boxed_article:
  assumes "s \<noteq> []" "\<forall>c\<in>set s. \<not> isspace c"
  shows "ArticleScraper_extract_article_content (boxed_page ''article'' [] None s)
         = Inr (if 200 < length s then Some (s, ''article tag'') else None,
                boxed_page ''article'' [] None s)"
proof -
  let ?el = "Elem ''article'' [] None [Text NavigableString s]"
  let ?soup = "boxed_page ''article'' [] None s"
  have f: "bs_find (has_tag ''article'') ?soup = Some ?el"
    by (simp add: boxed_page_def soup_of_def bs_find_def)
  have d: "decompose_unwanted ?el = Inr ?el"
    by (simp add: ArticleScraper_unwanted_def ArticleScraper_listed_def)
  have t: "remove_boilerplate ET_boilerplate_text (get_text_sep_strip ?el) = Inr s"
    using assms by (simp add: text_simps plain_facts)
  have r: "replace_first (has_tag ''article'') ?el ?soup = ?soup"
    by (simp add: boxed_page_def soup_of_def)
  have n: "ArticleScraper_try_selectors ArticleScraper_content_selectors ?soup = Inr (None, ?soup)"
    by (simp add: ArticleScraper_content_selectors_def boxed_page_def soup_of_def bs_find_def)
  show ?thesis unfolding ET_article_step[OF f d t] r n using assms by (simp add: plain_facts)
qed

lemma ET_extract_boxed_class:
  assumes "s \<noteq> []" "\<forall>c\<in>set s. \<not> isspace c"
  shows "ArticleScraper_extract_article_content (boxed_page ''div'' [''artText''] None s)
         = Inr (if 200 < length s then Some (s, ''class: artText'') else None,
                boxed_page ''div'' [''artText''] None s)"
proof -
  let ?el = "Elem ''div'' [''artText''] None [Text NavigableString s]"
  let ?soup = "boxed_page ''div'' [''artText''] None s"
  have a: "bs_find (has_tag ''article'') ?soup = None"
    by (simp add: boxed_page_def soup_of_def bs_find_def)
  have f: "bs_find (has_class ''artText'') ?soup = Some ?el"
    by (simp add: boxed_page_def soup_of_def bs_find_def)
  have d: "decompose_unwanted ?el = Inr ?el"
    by (simp add: ArticleScraper_unwanted_def ArticleScraper_listed_def)
  have t: "remove_boilerplate ET_boilerplate_text (get_text_sep_strip ?el) = Inr s"
    using assms by (simp add: text_simps plain_facts)
  have r: "replace_first (has_class ''artText'') ?el ?soup = ?soup"
    by (simp add: boxed_page_def soup_of_def)
  have n: "ArticleScraper_try_selectors [''article_wrap'', ''article-content'', ''story-details''] ?soup
           = Inr (None, ?soup)"
    by (simp add: boxed_page_def soup_of_def bs_find_def)
  show ?thesis
    unfolding ET_article_absent[OF a] ArticleScraper_content_selectors_def ET_try_step[OF f d t] r n
    using assms by (simp add: plain_facts)
qed

lemma ET_paywall_boxed:
  assumes "\<forall>c\<in>set s. \<not> isspace c"
  shows "ArticleScraper_is_paywall_page (boxed_page ''article'' [] None s) = (\<not> 200 < length s)"
  using assms
  by (simp add: ArticleScraper_is_paywall_page_def ArticleScraper_paywall_indicators_def
      ArticleScraper_article_content_def boxed_page_def soup_of_def bs_find_def text_simps plain_facts)

lemma News_paywall_boxed:
  assumes "\<forall>c\<in>set s. \<not> isspace c"
  shows "NewsArticleScraper_is_paywall_page (boxed_page ''article'' [] None s) source = (\<not> 200 < length s)"
  using assms
  by (simp add: NewsArticleScraper_is_paywall_page_def NewsArticleScraper_indicators_def
      NewsArticleScraper_article_content_def boxed_page_def soup_of_def bs_find_def text_simps plain_facts)

lemma footer_facts: "footer_text \<noteq> []" "strip footer_text = footer_text" "length cut_text = 305"
  "\<exists>t. remove_boilerplate ET_boilerplate_text footer_text = Inr t \<and> clean_text t = cut_text"
proof -
  show "footer_text \<noteq> []" by (simp add: footer_text_def)
  show "strip footer_text = footer_text"
    by (simp add: footer_text_def long_text_def strip_block z_not_space isspace_def)
  show "length cut_text = 305" by (simp add: cut_text_def long_text_def)
  have a: "remove_boilerplate ET_boilerplate_text footer_text = Inr (long_text @ '' '' @ [CHR 0x0A] @ '' end. '')"
    by (simp add: ET_boilerplate_text_def footer_text_def long_text_def contains_block split_head_block)
  have b: "clean_text (long_text @ '' '' @ [CHR 0x0A] @ '' end. '') = cut_text"
    using clean_text_block[of "CHR ''z''" 300 "'' '' @ [CHR 0x0A] @ '' end. ''"]
    by (simp add: cut_text_def long_text_def z_not_space isspace_def)
  from a b show "\<exists>t. remove_boilerplate ET_boilerplate_text footer_text = Inr t \<and> clean_text t = cut_text"
    by blast
qed

lemma ET_decompose_cluttered: "decompose_unwanted cluttered_article = Inr pruned_article"
  by (simp add: cluttered_article_def pruned_article_def ArticleScraper_unwanted_def
      ArticleScraper_listed_def)

lemma ET_gts_pruned: "get_text_sep_strip pruned_article = footer_text"
  by (simp add: pruned_article_def text_simps footer_facts)

lemma ET_extract_cluttered:
  "ArticleScraper_extract_article_content (soup_of [cluttered_article])
   = Inr (Some (cut_text, ''article tag''), soup_of [pruned_article])"
proof -
  have f: "bs_find (has_tag ''article'') (soup_of [cluttered_article]) = Some cluttered_article"
    by (simp add: soup_of_def bs_find_def cluttered_article_def)
  have r: "replace_first (has_tag ''article'') pruned_article (soup_of [cluttered_article])
           = soup_of [pruned_article]"
    by (simp add: soup_of_def cluttered_article_def)
  from footer_facts(4) obtain t where
    t: "remove_boilerplate ET_boilerplate_text (get_text_sep_strip pruned_article) = Inr t"
    and c: "clean_text t = cut_text" unfolding ET_gts_pruned by blast
  show ?thesis
    unfolding ET_article_step[OF f ET_decompose_cluttered t] r c by (simp add: footer_facts)
qed

lemma ETI_strip_cluttered:
  "ETNewsScraper_strip_element cluttered_article
   = Elem ''[document]'' [] None
       [Elem ''article'' [] None [Elem ''p'' [] None [Text NavigableString footer_text]]]"
  by (simp add: cluttered_article_def ETNewsScraper_strip_element_def ETNewsScraper_unwanted_classes_def
      ETNewsScraper_unwanted_ids_def reparse_def string_container_def)

lemma ETI_extract_cluttered:
  "ETNewsScraper_extract_article_content (soup_of [cluttered_article])
   = Inr (Some (cut_text, ''article tag''))"
proof -
  have f: "bs_find (has_tag ''article'') (soup_of [cluttered_article]) = Some cluttered_article"
    by (simp add: soup_of_def bs_find_def cluttered_article_def)
  have g: "get_text_sep_strip (ETNewsScraper_strip_element cluttered_article) = footer_text"
    by (simp add: ETI_strip_cluttered text_simps footer_facts)
  from footer_facts(4) obtain t where
    t: "remove_boilerplate ET_boilerplate_text
          (get_text_sep_strip (ETNewsScraper_strip_element cluttered_article)) = Inr t"
    and c: "clean_text t = cut_text" unfolding g by blast
  show ?thesis
    unfolding ETI_article_step[OF f t] c by (simp add: footer_facts)
qed

lemma ET_extract_rerun:
  "ArticleScraper_extract_article_content rerun_page
   = Inr (Some (long_text, ''class: article_wrap''), rerun_page_after)"
  "ArticleScraper_extract_article_content rerun_page_after
   = Inr (Some (q250, ''class: artText''), rerun_page_after)"
proof -
  let ?inner = "Elem ''div'' [''artText'', ''ads''] None [Text NavigableString ''short'']"
  let ?wrap = "Elem ''div'' [''article_wrap''] None [?inner, Text NavigableString long_text]"
  let ?wrap' = "Elem ''div'' [''article_wrap''] None [Text NavigableString long_text]"
  let ?q = "Elem ''div'' [''artText''] None [Text NavigableString q250]"
  have a: "bs_find (has_tag ''article'') rerun_page = None"
    by (simp add: rerun_page_def soup_of_def bs_find_def)
  have f1: "bs_find (has_class ''artText'') rerun_page = Some ?inner"
    by (simp add: rerun_page_def soup_of_def bs_find_def)
  have d1: "decompose_unwanted ?inner = Inr ?inner"
    by (simp add: ArticleScraper_unwanted_def ArticleScraper_listed_def)
  have t1: "remove_boilerplate ET_boilerplate_text (get_text_sep_strip ?inner) = Inr ''short''"
    by (simp add: text_simps strip_def isspace_def ET_boilerplate_text_def)
  have c1: "clean_text ''short'' = ''short''" by (simp add: clean_text_eq strip_def isspace_def)
  have r1: "replace_first (has_class ''artText'') ?inner rerun_page = rerun_page"
    by (simp add: rerun_page_def soup_of_def)
  have f2: "bs_find (has_class ''article_wrap'') rerun_page = Some ?wrap"
    by (simp add: rerun_page_def soup_of_def bs_find_def)
  have d2: "decompose_unwanted ?wrap = Inr ?wrap'"
    by (simp add: ArticleScraper_unwanted_def ArticleScraper_listed_def)
  have t2: "remove_boilerplate ET_boilerplate_text (get_text_sep_strip ?wrap') = Inr long_text"
    by (simp add: text_simps plain_facts long_text_plain long_text_facts)
  have r2: "replace_first (has_class ''article_wrap'') ?wrap' rerun_page = rerun_page_after"
    by (simp add: rerun_page_def rerun_page_after_def soup_of_def)
  have s1: "ArticleScraper_try_selectors
              [''artText'', ''article_wrap'', ''article-content'', ''story-details''] rerun_page
            = ArticleScraper_try_selectors [''article_wrap'', ''article-content'', ''story-details''] rerun_page"
    unfolding ET_try_step[OF f1 d1 t1] c1 r1 by simp
  have s2: "ArticleScraper_try_selectors [''article_wrap'', ''article-content'', ''story-details''] rerun_page
            = Inr (Some (long_text, ''class: article_wrap''), rerun_page_after)"
    unfolding ET_try_step[OF f2 d2 t2] r2 by (simp add: plain_facts long_text_plain long_text_facts)
  show "ArticleScraper_extract_article_content rerun_page
        = Inr (Some (long_text, ''class: article_wrap''), rerun_page_after)"
    unfolding ET_article_absent[OF a] ArticleScraper_content_selectors_def s1 s2 by (rule refl)
  have a': "bs_find (has_tag ''article'') rerun_page_after = None"
    by (simp add: rerun_page_after_def soup_of_def bs_find_def)
  have f3: "bs_find (has_class ''artText'') rerun_page_after = Some ?q"
    by (simp add: rerun_page_after_def soup_of_def bs_find_def)
  have d3: "decompose_unwanted ?q = Inr ?q"
    by (simp add: ArticleScraper_unwanted_def ArticleScraper_listed_def)
  have t3: "remove_boilerplate ET_boilerplate_text (get_text_sep_strip ?q) = Inr q250"
    by (simp add: text_simps plain_facts q250_facts)
  have r3: "replace_first (has_class ''artText'') ?q rerun_page_after = rerun_page_after"
    by (simp add: rerun_page_after_def soup_of_def)
  show "ArticleScraper_extract_article_content rerun_page_after
        = Inr (Some (q250, ''class: artText''), rerun_page_after)"
    unfolding ET_article_absent[OF a'] ArticleScraper_content_selectors_def
      ET_try_step[OF f3 d3 t3] r3
    by (simp add: plain_facts q250_facts)
qed

lemma ET_second_run_article:
  assumes "ArticleScraper_extract_article_content soup = Inr (Some (c, ''article tag''), soup')"
  shows "ArticleScraper_extract_article_content soup' = Inr (Some (c, ''article tag''), soup')"
proof -
  from ET_extract_sound[OF assms] obtain el el' t where
    f: "bs_find (has_tag ''article'') soup = Some el" and d: "decompose_unwanted el = Inr el'"
    and t: "remove_boilerplate ET_boilerplate_text (get_text_sep_strip el') = Inr t"
    and c: "c = clean_text t" "200 < length c"
    and s: "soup' = replace_first (has_tag ''article'') el' soup"
    by auto
  have el: "has_tag ''article'' el" using f by (rule bs_find_holds)
  have el': "has_tag ''article'' el'"
    using el has_tag_root[of "''article''" el] has_tag_root[of "''article''" el']
      decompose_unwanted_root[OF d] by simp
  have f': "bs_find (has_tag ''article'') soup' = Some el'"
    unfolding s using has_tag_root el' f by (rule bs_find_replace_first)
  have i: "replace_first (has_tag ''article'') el' soup' = soup'"
    unfolding s using has_tag_root el' by (rule replace_first_idem(1))
  show ?thesis
    unfolding ET_article_step[OF f' decompose_unwanted_idem[OF d] t] i using c by simp
qed

lemma single_spaced_Cons: "\<not> isspace c \<Longrightarrow> single_spaced (c # xs) = single_spaced xs"
  by (cases xs) auto

lemma single_spaced_block: "\<not> isspace c \<Longrightarrow> single_spaced (replicate n c @ t) = single_spaced t"
  by (induction n) (auto simp: single_spaced_Cons)

lemma broken_facts:
  "broken_phrase_text \<noteq> []" "strip broken_phrase_text = broken_phrase_text"
  "length broken_phrase_text = 224" "\<not> single_spaced broken_phrase_text"
  "broken_phrase_text \<noteq> joined_phrase_text"
  by (simp_all add: broken_phrase_text_def joined_phrase_text_def z201_def strip_block z_not_space
      single_spaced_block isspace_def)

lemma ETI_extract_paragraph_page:
  "ETNewsScraper_extract_article_content paragraph_page
     = Inr (Some (broken_phrase_text, ''paragraphs in main content''))"
  by (simp add: ETNewsScraper_extract_article_content_def paragraph_page_def soup_of_def bs_find_def
      bs_find_all_def ETNewsScraper_content_selectors_def ETNewsScraper_id_selectors_def
      paragraphs_in_main_content_def text_simps broken_facts)

lemma ETI_process_main_content:
  "ETNewsScraper_process_content_element
     (Elem ''div'' [''main-content''] None [Elem ''p'' [] None [Text NavigableString broken_phrase_text]])
   = Inr (Some joined_phrase_text)"
proof -
  have "ETNewsScraper_strip_element
          (Elem ''div'' [''main-content''] None [Elem ''p'' [] None [Text NavigableString broken_phrase_text]])
        = Elem ''[document]'' [] None
            [Elem ''div'' [''main-content''] None
               [Elem ''p'' [] None [Text NavigableString broken_phrase_text]]]"
    by (simp add: ETNewsScraper_strip_element_def ETNewsScraper_unwanted_classes_def
        ETNewsScraper_unwanted_ids_def reparse_def string_container_def)
  then show ?thesis
    by (simp add: ETNewsScraper_process_content_element_def text_simps broken_facts broken_finish)
qed

section \<open>The claims\<close>


subsection \<open>C1: exactly one of content and error\<close>

text \<open>
  C1. Every record that \<open>process_single_article\<close> returns, in either Economic Times
  file and for every network and input, has exactly one of \<open>full_content\<close> and
  \<open>error\<close> set; so has every record in any of the three buckets after
  \<open>process_articles\<close> has run on a new scraper.
\<close>

theorem C1_exactly_one_of_content_and_error:
  assumes "f = ArticleScraper_process_single_article net \<or>
           f = ETNewsScraper_process_single_article net"
  shows "(\<exists>r n'. f n u h d = (Inr r, n') \<and> exactly_one r) \<and>
         (\<exists>s n'. process_articles f rows new_scraper n = Inr (s, n') \<and>
                  list_all exactly_one (all_records s))"
proof -
  from assms obtain ip ex where f: "f = process_single_article ip ex net"
    by (auto simp: ArticleScraper_process_single_article_def ETNewsScraper_process_single_article_def)
  have ret: "\<And>n u h d. \<exists>r n'. f n u h d = (Inr r, n')" unfolding f by (rule psa_returns)
  have inv: "\<And>n u h d r n'. f n u h d = (Inr r, n') \<Longrightarrow> exactly_one r"
    unfolding f by (rule psa_exactly_one)
  from ret obtain r n' where r: "f n u h d = (Inr r, n')" by blast
  from process_articles_returns[where f=f, OF ret] obtain s n2
    where s: "process_articles f rows new_scraper n = Inr (s, n2)" by blast
  have "list_all exactly_one (all_records new_scraper)" by (simp add: all_records_def new_scraper_def)
  then have "list_all exactly_one (all_records s)"
    using process_articles_inv[where f=f and Q=exactly_one, OF inv s] by simp
  with r s inv show ?thesis by blast
qed

text \<open>C1 at the article page: the record returned, and the buckets of a one-row batch.\<close>

theorem C1_witness:
  "ArticleScraper_process_single_article steady_net 0 (Some ''http://x/a'') ''H'' ''1 Jan 2025''
     = (Inr good_record, 1) \<and>
   exactly_one good_record \<and>
   (\<exists>s n'. process_articles (ArticleScraper_process_single_article steady_net)
              [(Some ''http://x/a'', ''H'', ''1 Jan 2025'')] new_scraper 0 = Inr (s, n') \<and>
            list_all exactly_one (all_records s))"
  using C1_exactly_one_of_content_and_error
          [of "ArticleScraper_process_single_article steady_net" steady_net 0
              "Some ''http://x/a''" "''H''" "''1 Jan 2025''"
              "[(Some ''http://x/a'', ''H'', ''1 Jan 2025'')]"]
        ET_psa_steady[of 0]
  by auto


subsection \<open>C2: failures are records\<close>

text \<open>
  C2. \<open>process_single_article\<close> always returns a record, never an exception: a
  record without content carries a non-empty reason; an invalid URL, a request
  exception and any other exception each give their own reason text. The loop over the
  rows puts one record per row into the buckets whatever the outcomes, and
  \<open>process_articles\<close> as a whole returns.
\<close>

theorem C2_failures_are_returned_as_records:
  assumes "f = ArticleScraper_process_single_article net \<or>
           f = ETNewsScraper_process_single_article net"
  shows "(\<exists>r n'. f n u h d = (Inr r, n') \<and>
            (full_content r = None \<longrightarrow> (\<exists>m. error r = Some m \<and> m \<noteq> [])) \<and>
            (u = None \<or> u = Some ''URL not available'' \<longrightarrow> error r = Some ''Invalid URL'') \<and>
            (\<forall>u' m. u = Some u' \<and> u' \<noteq> ''URL not available'' \<and>
                     net n u' = Raises (RequestException m)
                \<longrightarrow> error r = Some (''Request error: '' @ m)) \<and>
            (\<forall>u' m. u = Some u' \<and> u' \<noteq> ''URL not available'' \<and>
                     net n u' = Raises (OtherException m)
                \<longrightarrow> error r = Some (''Unexpected error: '' @ m))) \<and>
         (\<exists>s' n'. process_rows f rows s n = Inr (s', n') \<and>
                   length (all_records s') = length (all_records s) + length rows) \<and>
         (\<exists>s' n'. process_articles f rows s n = Inr (s', n'))"
proof -
  from assms obtain ip ex where f: "f = process_single_article ip ex net"
    by (auto simp: ArticleScraper_process_single_article_def ETNewsScraper_process_single_article_def)
  have ret: "\<And>n u h d. \<exists>r n'. f n u h d = (Inr r, n')" unfolding f by (rule psa_returns)
  show ?thesis
    using psa_failure_modes[of ip ex net n u h d]
      process_rows_returns[where f=f, OF ret, of rows s n]
      process_articles_returns[where f=f, OF ret, of rows s n]
    unfolding f by blast
qed

text \<open>
  C2 at a URL that \<open>requests\<close> rejects, at a page on which the sanitizer raises, and
  at a batch of two rows where the request for the first row fails and the second row
  is still processed.
\<close>

theorem C2_witness:
  "ArticleScraper_process_single_article refusing_net 0 (Some ''x'') ''H'' ''D''
     = (Inr (failed_article (Some ''x'') ''H'' ''D'' (''Request error: '' @ no_scheme_message ''x'')), 1) \<and>
   ArticleScraper_process_single_article nested_net 0 (Some ''http://x/a'') ''H'' ''D''
     = (Inr (failed_article (Some ''http://x/a'') ''H'' ''D''
               (''Unexpected error: '' @ attribute_error_message)), 1) \<and>
   process_rows (ArticleScraper_process_single_article flaky_net)
     [(Some ''http://x/b'', ''B'', ''D''), (Some ''http://x/a'', ''H'', ''1 Jan 2025'')] new_scraper 0
     = Inr (\<lparr>article_data = [good_record],
              failed_urls = [failed_article (Some ''http://x/b'') ''B'' ''D''
                               ''Request error: Connection refused''],
              paywall_urls = []\<rparr>, 2) \<and>
   (\<exists>s' n'. process_articles (ArticleScraper_process_single_article flaky_net)
               [(Some ''http://x/b'', ''B'', ''D''), (Some ''http://x/a'', ''H'', ''1 Jan 2025'')]
               new_scraper 0 = Inr (s', n'))"
proof -
  have a: "ArticleScraper_process_single_article refusing_net 0 (Some ''x'') ''H'' ''D''
     = (Inr (failed_article (Some ''x'') ''H'' ''D'' (''Request error: '' @ no_scheme_message ''x'')), 1)"
    by (simp add: ArticleScraper_process_single_article_def process_single_article_def
        process_single_article_try_def refusing_net_def)
  have b: "ArticleScraper_process_single_article nested_net 0 (Some ''http://x/a'') ''H'' ''D''
     = (Inr (failed_article (Some ''http://x/a'') ''H'' ''D''
               (''Unexpected error: '' @ attribute_error_message)), 1)"
    by (simp add: ArticleScraper_process_single_article_def process_single_article_def
        process_single_article_try_def nested_net_def ET_paywall_nested_page ET_extract_nested_page)
  show ?thesis
    using C2_failures_are_returned_as_records
            [of "ArticleScraper_process_single_article flaky_net" flaky_net 0
                "Some ''http://x/b''" "''B''" "''D''"
                "[(Some ''http://x/b'', ''B'', ''D''), (Some ''http://x/a'', ''H'', ''1 Jan 2025'')]"
                new_scraper]
          a b ET_rows_flaky
    by blast
qed


subsection \<open>C3: the paywall classifiers\<close>




subsection \<open>C4: the recheck pass\<close>

text \<open>
  C4. At a batch of one article whose first fetch is classified as paywalled and whose
  recheck extracts the content, either scraper ends with the recovered record in
  \<open>article_data\<close> and the record of the first pass still in \<open>paywall_urls\<close>:
  \<open>self.paywall_urls\<close> is only replaced when \<open>still_paywall\<close> is not empty.
\<close>

theorem C4_recovered_article_stays_in_paywall_bucket:
  "process_articles (ArticleScraper_process_single_article transient_net)
     [(Some ''http://x/a'', ''H'', ''1 Jan 2025'')] new_scraper 0
   = Inr (\<lparr>article_data = [good_record], failed_urls = [],
            paywall_urls = [failed_article (Some ''http://x/a'') ''H'' ''1 Jan 2025''
                              ''Paywall detected'']\<rparr>, 2) \<and>
   process_articles (ETNewsScraper_process_single_article transient_net)
     [(Some ''http://x/a'', ''H'', ''1 Jan 2025'')] new_scraper 0
   = Inr (\<lparr>article_data = [good_record], failed_urls = [],
            paywall_urls = [failed_article (Some ''http://x/a'') ''H'' ''1 Jan 2025''
                              ''Paywall detected'']\<rparr>, 2)"
  unfolding ArticleScraper_process_single_article_def ETNewsScraper_process_single_article_def
  using psa_transient[where ip=ArticleScraper_is_paywall_page
                        and ex=ArticleScraper_content_and_method,
                      OF ET_paywall_blocked_page ET_paywall_article_page ET_content_article_page]
        psa_transient[where ip=ETNewsScraper_is_paywall_page
                        and ex=ETNewsScraper_extract_article_content,
                      OF ETI_paywall_blocked_page ETI_paywall_article_page ETI_extract_article_page]
  by simp

text \<open>C4 at the same batch: the paywalled bucket is not empty although nothing is paywalled any more.\<close>

theorem C4_witness:
  "\<exists>s. process_articles (ArticleScraper_process_single_article transient_net)
          [(Some ''http://x/a'', ''H'', ''1 Jan 2025'')] new_scraper 0 = Inr (s, 2) \<and>
        article_data s = [good_record] \<and> length (paywall_urls s) = 1"
  using C4_recovered_article_stays_in_paywall_bucket by simp


subsection \<open>C5: invalid URLs\<close>

text \<open>
  C5. A row of the input file reaches \<open>process_single_article\<close> through
  \<open>pd.read_csv\<close>, where a missing or empty URL cell is the missing value. For a URL
  that is missing, and for a row whose URL cell is empty, is another NA marker or is the
  sentinel \<open>URL not available\<close>, either scraper returns the record with error
  \<open>Invalid URL\<close> and does not call \<open>requests.get\<close>: the request count stays as it
  was, whatever the network. A batch of such rows ends with one such record per row in
  \<open>failed_urls\<close>, nothing rechecked and no request made. For comparison, every URL
  string other than the sentinel is handed to \<open>requests.get\<close>: there the count moves.
\<close>

theorem C5_invalid_url_rows_make_no_request:
  assumes "f = ArticleScraper_process_single_article net \<or>
           f = ETNewsScraper_process_single_article net"
  shows "f n None h d = (Inr (failed_article None h d ''Invalid URL''), n) \<and>
         invalid_url_cell [] \<and> read_csv_cell [] = None \<and> invalid_url_cell ''URL not available'' \<and>
         (invalid_url_cell cell
            \<longrightarrow> f n (read_csv_cell cell) h d
                  = (Inr (failed_article (read_csv_cell cell) h d ''Invalid URL''), n)) \<and>
         (list_all (\<lambda>r. invalid_url_cell (fst r)) cells
            \<longrightarrow> process_articles f (map read_csv_row cells) new_scraper n
                  = Inr (\<lparr>article_data = [], failed_urls = map invalid_url_record cells,
                           paywall_urls = []\<rparr>, n)) \<and>
         (\<forall>u'. u' \<noteq> ''URL not available''
            \<longrightarrow> (\<exists>r. f n (Some u') h d = (Inr r, Suc n) \<and> error r \<noteq> Some ''Invalid URL''))"
proof -
  from assms obtain ip ex where f: "f = process_single_article ip ex net"
    by (auto simp: ArticleScraper_process_single_article_def ETNewsScraper_process_single_article_def)
  have a: "f n None h d = (Inr (failed_article None h d ''Invalid URL''), n)"
    unfolding f by (rule psa_invalid_url) simp
  have b: "invalid_url_cell [] \<and> read_csv_cell [] = None \<and> invalid_url_cell ''URL not available''"
    by (simp add: read_csv_cell_def invalid_url_cell_def pandas_na_values_def)
  have c: "invalid_url_cell cell
            \<longrightarrow> f n (read_csv_cell cell) h d
                  = (Inr (failed_article (read_csv_cell cell) h d ''Invalid URL''), n)"
    unfolding f using read_csv_cell_invalid[of cell] psa_invalid_url[of "read_csv_cell cell" ip ex net n h d]
    by blast
  have d: "list_all (\<lambda>r. invalid_url_cell (fst r)) cells
            \<longrightarrow> process_articles f (map read_csv_row cells) new_scraper n
                  = Inr (\<lparr>article_data = [], failed_urls = map invalid_url_record cells,
                           paywall_urls = []\<rparr>, n)"
    unfolding f using process_articles_invalid[of cells ip ex net n] by blast
  have e: "\<forall>u'. u' \<noteq> ''URL not available''
            \<longrightarrow> (\<exists>r. f n (Some u') h d = (Inr r, Suc n) \<and> error r \<noteq> Some ''Invalid URL'')"
    unfolding f using psa_request_made[of _ _ ip ex net n h d] by blast
  from a b c d e show ?thesis by blast
qed

text \<open>
  C5 at a missing URL, at a row with an empty URL cell, at a row with the sentinel, at
  a batch of these two rows, and at a URL that is requested.
\<close>

theorem C5_witness:
  "ArticleScraper_process_single_article refusing_net 0 None ''H'' ''D''
     = (Inr (failed_article None ''H'' ''D'' ''Invalid URL''), 0) \<and>
   read_csv_row ([], ''H'', ''D'') = (None, ''H'', ''D'') \<and>
   read_csv_row (''URL not available'', ''I'', ''E'') = (Some ''URL not available'', ''I'', ''E'') \<and>
   process_articles (ArticleScraper_process_single_article refusing_net)
     (map read_csv_row [([], ''H'', ''D''), (''URL not available'', ''I'', ''E'')]) new_scraper 0
     = Inr (\<lparr>article_data = [],
              failed_urls = [failed_article None ''H'' ''D'' ''Invalid URL'',
                             failed_article (Some ''URL not available'') ''I'' ''E'' ''Invalid URL''],
              paywall_urls = []\<rparr>, 0) \<and>
   (\<exists>r. ArticleScraper_process_single_article refusing_net 0 (Some ''x'') ''H'' ''D'' = (Inr r, Suc 0) \<and>
        error r \<noteq> Some ''Invalid URL'')"
proof -
  have cells: "read_csv_cell [] = None"
    "read_csv_cell ''URL not available'' = Some ''URL not available''"
    by (simp_all add: read_csv_cell_def pandas_na_values_def)
  have inv: "list_all (\<lambda>r. invalid_url_cell (fst r))
               [([], ''H'', ''D''), (''URL not available'', ''I'', ''E'')]"
    by (simp add: invalid_url_cell_def pandas_na_values_def)
  have recs: "map invalid_url_record [([], ''H'', ''D''), (''URL not available'', ''I'', ''E'')]
      = [failed_article None ''H'' ''D'' ''Invalid URL'',
         failed_article (Some ''URL not available'') ''I'' ''E'' ''Invalid URL'']"
    by (simp add: invalid_url_record_def cells)
  have rows: "read_csv_row ([], ''H'', ''D'') = (None, ''H'', ''D'')"
    "read_csv_row (''URL not available'', ''I'', ''E'') = (Some ''URL not available'', ''I'', ''E'')"
    by (simp_all add: read_csv_row_def cells)
  have x: "''x'' \<noteq> ''URL not available''" by simp
  note t = C5_invalid_url_rows_make_no_request
            [of "ArticleScraper_process_single_article refusing_net" refusing_net 0 "''H''" "''D''"
                "[]" "[([], ''H'', ''D''), (''URL not available'', ''I'', ''E'')]", OF disjI1[OF refl]]
  from t have t1: "ArticleScraper_process_single_article refusing_net 0 None ''H'' ''D''
     = (Inr (failed_article None ''H'' ''D'' ''Invalid URL''), 0)" by blast
  from t inv have t2: "process_articles (ArticleScraper_process_single_article refusing_net)
     (map read_csv_row [([], ''H'', ''D''), (''URL not available'', ''I'', ''E'')]) new_scraper 0
     = Inr (\<lparr>article_data = [],
              failed_urls = map invalid_url_record [([], ''H'', ''D''), (''URL not available'', ''I'', ''E'')],
              paywall_urls = []\<rparr>, 0)" by blast
  from t x have t3: "\<exists>r. ArticleScraper_process_single_article refusing_net 0 (Some ''x'') ''H'' ''D'' = (Inr r, Suc 0) \<and>
        error r \<noteq> Some ''Invalid URL''" by blast
  show ?thesis using t1 t2[unfolded recs] t3 rows by blast
qed

subsection \<open>C6: the threshold\<close>

text \<open>
  C6. Every acceptance test of the pipeline is the one comparison \<open>len(...) > 200\<close>.
  The sanitizer's last step, in both Economic Times files, returns the cleaned text
  exactly when it is longer than 200 characters and signals no content otherwise. In
  the locator cascade of either file the article step returns with the method
  \<open>article tag\<close> exactly when the cleaned text of its candidate is longer than 200, a
  class or id step returns the cleaned text of its candidate when that is longer than
  200 and hands over to the next step otherwise, and the paragraph step of
  ET_news_integrated.py returns its joined text exactly when that is longer than 200.
  With no indicator class on the page, the classifiers of articles_data_ET.py and
  fetch_news_articles.py answer paywalled exactly when the container is absent or its
  stripped text is not longer than 200.
\<close>

theorem C6_strict_threshold:
  "(remove_boilerplate bp x = Inr t \<longrightarrow>
      finish_content bp x = Inr (if 200 < length (clean_text t) then Some (clean_text t) else None)) \<and>
   (remove_boilerplate ET_boilerplate_text
      (get_text_sep_strip (ETNewsScraper_strip_element el)) = Inr t \<longrightarrow>
      ETNewsScraper_process_content_element el
        = Inr (if 200 < length (clean_text t) then Some (clean_text t) else None)) \<and>
   (decompose_unwanted el = Inr el' \<and>
    remove_boilerplate ET_boilerplate_text (get_text_sep_strip el') = Inr t \<longrightarrow>
      ArticleScraper_process_content_element el
        = Inr (if 200 < length (clean_text t) then Some (clean_text t) else None, el')) \<and>
   (bs_find (has_tag ''article'') soup = Some el \<and>
    remove_boilerplate ET_boilerplate_text
      (get_text_sep_strip (ETNewsScraper_strip_element el)) = Inr t \<longrightarrow>
      ((\<exists>c. ETNewsScraper_extract_article_content soup = Inr (Some (c, ''article tag'')))
         \<longleftrightarrow> 200 < length (clean_text t)) \<and>
      (200 < length (clean_text t) \<longrightarrow>
         ETNewsScraper_extract_article_content soup = Inr (Some (clean_text t, ''article tag'')))) \<and>
   (bs_find (sel name) soup = Some el \<and>
    remove_boilerplate ET_boilerplate_text
      (get_text_sep_strip (ETNewsScraper_strip_element el)) = Inr t \<longrightarrow>
      ETNewsScraper_try_selectors sel tg (name # rest) soup
        = (if 200 < length (clean_text t) then Inr (Some (clean_text t, tg @ name))
           else ETNewsScraper_try_selectors sel tg rest soup)) \<and>
   (bs_find (\<lambda>n. has_tag ''div'' n \<and>
                  class_matches (\<lambda>c. contains ''article'' c \<or> contains ''story'' c \<or>
                                      contains ''content'' c) n) soup = Some main_content \<and>
    content = join_sp (filter (\<lambda>s. s \<noteq> [])
                         (map (\<lambda>p. strip (get_text p)) (bs_find_all (has_tag ''p'') main_content))) \<longrightarrow>
      paragraphs_in_main_content soup
        = (if 200 < length content then Some (content, ''paragraphs in main content'') else None)) \<and>
   (bs_find (has_tag ''article'') soup = Some el \<and> decompose_unwanted el = Inr el' \<and>
    remove_boilerplate ET_boilerplate_text (get_text_sep_strip el') = Inr t \<longrightarrow>
      ArticleScraper_extract_article_content soup
        = (if 200 < length (clean_text t)
           then Inr (Some (clean_text t, ''article tag''), replace_first (has_tag ''article'') el' soup)
           else ArticleScraper_try_selectors ArticleScraper_content_selectors
                  (replace_first (has_tag ''article'') el' soup))) \<and>
   (bs_find (has_class name) soup = Some el \<and> decompose_unwanted el = Inr el' \<and>
    remove_boilerplate ET_boilerplate_text (get_text_sep_strip el') = Inr t \<longrightarrow>
      ArticleScraper_try_selectors (name # rest) soup
        = (if 200 < length (clean_text t)
           then Inr (Some (clean_text t, ''class: '' @ name), replace_first (has_class name) el' soup)
           else ArticleScraper_try_selectors rest (replace_first (has_class name) el' soup))) \<and>
   (\<not> (\<exists>n\<in>set (descendants soup). \<exists>i\<in>set ArticleScraper_paywall_indicators. has_class i n) \<longrightarrow>
      ArticleScraper_is_paywall_page soup =
        (case ArticleScraper_article_content soup of
           None \<Rightarrow> True | Some ac \<Rightarrow> \<not> 200 < length (strip (get_text ac)))) \<and>
   (\<not> (\<exists>n\<in>set (descendants soup). \<exists>i\<in>set (NewsArticleScraper_indicators source). has_class i n) \<longrightarrow>
      NewsArticleScraper_is_paywall_page soup source =
        (case NewsArticleScraper_article_content soup of
           None \<Rightarrow> True | Some ac \<Rightarrow> \<not> 200 < length (strip (get_text ac))))"
proof -
  have art: "((\<exists>c. ETNewsScraper_extract_article_content soup = Inr (Some (c, ''article tag'')))
               \<longleftrightarrow> 200 < length (clean_text t)) \<and>
             (200 < length (clean_text t) \<longrightarrow>
                ETNewsScraper_extract_article_content soup = Inr (Some (clean_text t, ''article tag'')))"
    if f: "bs_find (has_tag ''article'') soup = Some el"
      and t: "remove_boilerplate ET_boilerplate_text
                (get_text_sep_strip (ETNewsScraper_strip_element el)) = Inr t"
  proof -
    have acc: "ETNewsScraper_extract_article_content soup = Inr (Some (clean_text t, ''article tag''))"
      if "200 < length (clean_text t)"
      unfolding ETI_article_step[OF f t] using that by simp
    have rej: "200 < length (clean_text t)"
      if "ETNewsScraper_extract_article_content soup = Inr (Some (c, ''article tag''))" for c
    proof -
      from ETI_extract_sound[OF that] paragraphs_method[of soup c "''article tag''"]
      obtain el2 t2 where "bs_find (has_tag ''article'') soup = Some el2"
        "remove_boilerplate ET_boilerplate_text
           (get_text_sep_strip (ETNewsScraper_strip_element el2)) = Inr t2"
        "c = clean_text t2" "200 < length c"
        by auto
      with f t show ?thesis by simp
    qed
    from acc rej show ?thesis by blast
  qed
  have et: "ArticleScraper_is_paywall_page soup =
        (case ArticleScraper_article_content soup of
           None \<Rightarrow> True | Some ac \<Rightarrow> \<not> 200 < length (strip (get_text ac)))"
    if "\<not> (\<exists>n\<in>set (descendants soup). \<exists>i\<in>set ArticleScraper_paywall_indicators. has_class i n)"
    using that unfolding ArticleScraper_is_paywall_page_def bs_find_list_ex
    by (auto simp: list_ex_iff split: option.splits)
  have news: "NewsArticleScraper_is_paywall_page soup source =
        (case NewsArticleScraper_article_content soup of
           None \<Rightarrow> True | Some ac \<Rightarrow> \<not> 200 < length (strip (get_text ac)))"
    if "\<not> (\<exists>n\<in>set (descendants soup). \<exists>i\<in>set (NewsArticleScraper_indicators source). has_class i n)"
    using that unfolding NewsArticleScraper_is_paywall_page_def bs_find_list_ex
    by (auto simp: list_ex_iff split: option.splits)
  show ?thesis
    using finish_content_eq[of bp x t] ETI_process_eq[of el t] ET_process_eq[of el el' t] art
      ETI_try_step[of sel name soup el t tg rest] paragraphs_step[of soup main_content content]
      ET_article_step[of soup el el' t] ET_try_step[of name soup el el' t rest] et news
    by blast
qed

text \<open>
  C6 at the boundary. A run of 200 letters is rejected and a run of 201 letters is
  accepted: by both sanitizers, by the article step, a class step and an id step of the
  cascade and by the paragraph step, and by the fallback of both classifiers.
\<close>

theorem C6_witness:
  "length z200 = 200 \<and> length z201 = 201 \<and>
   ETNewsScraper_process_content_element (Elem ''article'' [] None [Text NavigableString z200]) = Inr None \<and>
   ETNewsScraper_process_content_element (Elem ''article'' [] None [Text NavigableString z201])
     = Inr (Some z201) \<and>
   ArticleScraper_process_content_element (Elem ''article'' [] None [Text NavigableString z200])
     = Inr (None, Elem ''article'' [] None [Text NavigableString z200]) \<and>
   ArticleScraper_process_content_element (Elem ''article'' [] None [Text NavigableString z201])
     = Inr (Some z201, Elem ''article'' [] None [Text NavigableString z201]) \<and>
   ETNewsScraper_extract_article_content (boxed_page ''article'' [] None z200) = Inr None \<and>
   ETNewsScraper_extract_article_content (boxed_page ''article'' [] None z201)
     = Inr (Some (z201, ''article tag'')) \<and>
   ETNewsScraper_extract_article_content (boxed_page ''div'' [''artText''] None z200) = Inr None \<and>
   ETNewsScraper_extract_article_content (boxed_page ''div'' [''artText''] None z201)
     = Inr (Some (z201, ''class: artText'')) \<and>
   ETNewsScraper_extract_article_content (boxed_page ''div'' [] (Some ''articleBody'') z200) = Inr None \<and>
   ETNewsScraper_extract_article_content (boxed_page ''div'' [] (Some ''articleBody'') z201)
     = Inr (Some (z201, ''id: articleBody'')) \<and>
   ETNewsScraper_extract_article_content (paragraphs_page z200) = Inr None \<and>
   ETNewsScraper_extract_article_content (paragraphs_page z201)
     = Inr (Some (z201, ''paragraphs in main content'')) \<and>
   ArticleScraper_extract_article_content (boxed_page ''article'' [] None z200)
     = Inr (None, boxed_page ''article'' [] None z200) \<and>
   ArticleScraper_extract_article_content (boxed_page ''article'' [] None z201)
     = Inr (Some (z201, ''article tag''), boxed_page ''article'' [] None z201) \<and>
   ArticleScraper_extract_article_content (boxed_page ''div'' [''artText''] None z200)
     = Inr (None, boxed_page ''div'' [''artText''] None z200) \<and>
   ArticleScraper_extract_article_content (boxed_page ''div'' [''artText''] None z201)
     = Inr (Some (z201, ''class: artText''), boxed_page ''div'' [''artText''] None z201) \<and>
   ArticleScraper_is_paywall_page (boxed_page ''article'' [] None z200) \<and>
   \<not> ArticleScraper_is_paywall_page (boxed_page ''article'' [] None z201) \<and>
   NewsArticleScraper_is_paywall_page (boxed_page ''article'' [] None z200) ''economictimes'' \<and>
   \<not> NewsArticleScraper_is_paywall_page (boxed_page ''article'' [] None z201) ''economictimes''"
proof -
  let ?e200 = "Elem ''article'' [] None [Text NavigableString z200]"
  let ?e201 = "Elem ''article'' [] None [Text NavigableString z201]"
  have l: "length z200 = 200" "length z201 = 201" by (simp_all add: z200_def z201_def)
  have d: "decompose_unwanted ?e200 = Inr ?e200" "decompose_unwanted ?e201 = Inr ?e201"
    by (simp_all add: ArticleScraper_unwanted_def ArticleScraper_listed_def)
  have g: "get_text_sep_strip (ETNewsScraper_strip_element ?e200) = z200"
    "get_text_sep_strip (ETNewsScraper_strip_element ?e201) = z201"
    "get_text_sep_strip ?e200 = z200" "get_text_sep_strip ?e201 = z201"
    by (simp_all add: ETI_strip_boxed_article text_simps plain_facts z200_facts z201_facts z201_plain)
  have r: "remove_boilerplate ET_boilerplate_text z200 = Inr z200"
    "remove_boilerplate ET_boilerplate_text z201 = Inr z201"
    "clean_text z200 = z200" "clean_text z201 = z201"
    by (simp_all add: plain_facts z200_facts z201_plain)
  note t200 = C6_strict_threshold[of _ _ z200 ?e200 ?e200, unfolded g r l]
  note t201 = C6_strict_threshold[of _ _ z201 ?e201 ?e201, unfolded g r l]
  from t200 d have a: "ETNewsScraper_process_content_element ?e200 = Inr None \<and>
     ArticleScraper_process_content_element ?e200 = Inr (None, ?e200)" by simp
  from t201 d have b: "ETNewsScraper_process_content_element ?e201 = Inr (Some z201) \<and>
     ArticleScraper_process_content_element ?e201 = Inr (Some z201, ?e201)" by simp
  show ?thesis
    using a b l
    by (simp add: ETI_extract_boxed_article ETI_extract_boxed_class ETI_extract_boxed_id
        ETI_extract_paragraphs ET_extract_boxed_article ET_extract_boxed_class
        ET_paywall_boxed News_paywall_boxed z200_facts z201_facts z201_plain)
qed

subsection \<open>C7: boilerplate truncation\<close>





subsection \<open>C10: routing by substring\<close>




end
